theory Spec2Isabelle
  imports Main "HOL-Library.Word"
begin

section \<open>Text\<close>

text \<open>
  A Python \<open>str\<close> is a sequence of Unicode code points, so text is a list of naturals.
  Literals of the source are written \<open>str ''...''\<close>.
\<close>

type_synonym ustr = "nat list"

definition str :: "string \<Rightarrow> ustr" where
  "str s = map of_char s"

text \<open>
  \<open>str.strip()\<close> with no argument removes the characters for which \<open>str.isspace\<close>
  holds, from both ends.
\<close>

definition isspace :: "nat \<Rightarrow> bool" where
  "isspace c \<longleftrightarrow>
     (9 \<le> c \<and> c \<le> 13) \<or> (28 \<le> c \<and> c \<le> 32) \<or> c = 133 \<or> c = 160 \<or> c = 5760 \<or>
     (8192 \<le> c \<and> c \<le> 8202) \<or> c = 8232 \<or> c = 8233 \<or> c = 8239 \<or> c = 8287 \<or> c = 12288"

definition strip :: "ustr \<Rightarrow> ustr" where
  "strip s = rev (dropWhile isspace (rev (dropWhile isspace s)))"

section \<open>The parsed document tree\<close>

text \<open>
  The tree BeautifulSoup builds: a \<open>Tag\<close> has a name, an attribute dictionary and its
  contents; a \<open>NavigableString\<close> is a piece of text; \<open>Comment\<close> stands for the string
  objects that \<open>.text\<close> leaves out (comments, declarations, script and style bodies).
  An attribute value is one string, or a list of strings for the multi-valued attributes
  (\<open>class\<close> is split at whitespace into its CSS classes).
\<close>

datatype attr_value = Single ustr | Multi "ustr list"

datatype node =
    Tag ustr "(ustr \<times> attr_value) list" "node list"
  | NavigableString ustr
  | Comment ustr

fun tag_named :: "ustr \<Rightarrow> node \<Rightarrow> bool" where
  "tag_named nm (Tag n a cs) = (n = nm)"
| "tag_named nm (NavigableString s) = False"
| "tag_named nm (Comment s) = False"

fun get_attr :: "node \<Rightarrow> ustr \<Rightarrow> attr_value option" where
  "get_attr (Tag n a cs) k = map_of a k"
| "get_attr (NavigableString s) k = None"
| "get_attr (Comment s) k = None"

text \<open>\<open>.descendants\<close>: every node below the given one, in document order.\<close>

fun descendants :: "node \<Rightarrow> node list" where
  "descendants (Tag n a cs) = concat (map (\<lambda>c. c # descendants c) cs)"
| "descendants (NavigableString s) = []"
| "descendants (Comment s) = []"

text \<open>\<open>tag.find_all(name)\<close> and \<open>tag.find(name)\<close> with a tag name only.\<close>

definition find_all :: "ustr \<Rightarrow> node \<Rightarrow> node list" where
  "find_all nm t = filter (tag_named nm) (descendants t)"

definition find_first :: "ustr \<Rightarrow> node \<Rightarrow> node option" where
  "find_first nm t = (case find_all nm t of [] \<Rightarrow> None | e # es \<Rightarrow> Some e)"

text \<open>\<open>.text\<close>: the text strings below the tag, joined.\<close>

fun own_text :: "node \<Rightarrow> ustr" where
  "own_text (NavigableString s) = s"
| "own_text (Tag n a cs) = []"
| "own_text (Comment s) = []"

definition get_text :: "node \<Rightarrow> ustr" where
  "get_text t = concat (map own_text (descendants t))"

section \<open>Selecting the student rows\<close>

text \<open>
  \<open>re.compile(r'^msg\d+$')\<close>, applied with \<open>search\<close>: \<open>^\<close> matches at the start only,
  \<open>\d\<close> a character of the interpreter's table of decimal digits (the parameter
  \<open>dec\<close>), and \<open>$\<close> at the end of the string or just before a newline that ends it.
\<close>

fun strip_prefix :: "ustr \<Rightarrow> ustr \<Rightarrow> ustr option" where
  "strip_prefix [] s = Some s"
| "strip_prefix (p # ps) [] = None"
| "strip_prefix (p # ps) (c # cs) = (if p = c then strip_prefix ps cs else None)"

definition msg_pattern_search :: "(nat \<Rightarrow> bool) \<Rightarrow> ustr \<Rightarrow> bool" where
  "msg_pattern_search dec s =
     (case strip_prefix (str ''msg'') s of
        None \<Rightarrow> False
      | Some r \<Rightarrow> takeWhile dec r \<noteq> [] \<and> (dropWhile dec r = [] \<or> dropWhile dec r = [10]))"

text \<open>
  How a search compares an attribute of a tag with what it was asked for. A missing
  attribute matches nothing here; a list matches when one of its items does, or the items
  joined by spaces do.
\<close>

fun join_spaces :: "ustr list \<Rightarrow> ustr" where
  "join_spaces [] = []"
| "join_spaces [v] = v"
| "join_spaces (v # w # vs) = v @ 32 # join_spaces (w # vs)"

fun attr_matches :: "(ustr \<Rightarrow> bool) \<Rightarrow> attr_value option \<Rightarrow> bool" where
  "attr_matches p None = False"
| "attr_matches p (Some (Single v)) = p v"
| "attr_matches p (Some (Multi vs)) = (list_ex p vs \<or> p (join_spaces vs))"

text \<open>\<open>soup.find_all('tr', class_='nav', id=re.compile(r'^msg\d+$'))\<close>\<close>

definition is_student_row :: "(nat \<Rightarrow> bool) \<Rightarrow> node \<Rightarrow> bool" where
  "is_student_row dec e \<longleftrightarrow>
     tag_named (str ''tr'') e \<and>
     attr_matches (\<lambda>v. v = str ''nav'') (get_attr e (str ''class'')) \<and>
     attr_matches (msg_pattern_search dec) (get_attr e (str ''id''))"

definition student_rows :: "(nat \<Rightarrow> bool) \<Rightarrow> node \<Rightarrow> node list" where
  "student_rows dec soup = filter (is_student_row dec) (descendants soup)"

section \<open>Extracting the fields of a row\<close>

text \<open>
  The only exception the body of the \<open>try\<close> can raise is that of \<open>cells[i]\<close>;
  \<open>row_message\<close> is its \<open>str\<close>.
\<close>

datatype row_exception = IndexError

fun row_message :: "row_exception \<Rightarrow> ustr" where
  "row_message IndexError = str ''list index out of range''"

text \<open>The exceptions that end a run.\<close>

datatype exn =
    UnicodeDecodeError
  | UnicodeEncodeError
  | FileNotFoundError
  | PermissionError

record student =
  student_id :: ustr
  student_name :: ustr
  course :: ustr
  year :: ustr

text \<open>\<open>cells[i]\<close> for a constant \<open>i \<ge> 0\<close>: out of range raises.\<close>

definition index :: "'a list \<Rightarrow> nat \<Rightarrow> row_exception + 'a" where
  "index xs i = (if i < length xs then Inr (xs ! i) else Inl IndexError)"

text \<open>\<open>c = cell.find('font')\<close>, then \<open>c.text.strip() if c else ''\<close> (a tag is always true).\<close>

definition font_text :: "node \<Rightarrow> ustr" where
  "font_text cell =
     (case find_first (str ''font'') cell of
        None \<Rightarrow> []
      | Some f \<Rightarrow> strip (get_text f))"

text \<open>
  The body of the \<open>try\<close> up to the four values: the exception raised, or the values.
\<close>

definition extract_fields :: "node \<Rightarrow> row_exception + student" where
  "extract_fields row =
     (let cells = find_all (str ''td'') row in
      case index cells 1 of Inl e \<Rightarrow> Inl e | Inr c1 \<Rightarrow>
      let sid = font_text c1 in
      case index cells 2 of Inl e \<Rightarrow> Inl e | Inr c2 \<Rightarrow>
      let sname = font_text c2 in
      case index cells 3 of Inl e \<Rightarrow> Inl e | Inr c3 \<Rightarrow>
      let crs = font_text c3 in
      case index cells 4 of Inl e \<Rightarrow> Inl e | Inr c4 \<Rightarrow>
      let yr = font_text c4 in
      Inr \<lparr>student_id = sid, student_name = sname, course = crs, year = yr\<rparr>)"

text \<open>
  The dictionary of lines 62 to 68, for a row whose four \<open>cells[i]\<close> exist. Here
  \<open>cells\<close> is \<open>row.find_all('td')\<close>, a search of everything below the row: the
  \<open>td\<close> elements of a table nested in a cell are in the list too, so \<open>cells[i]\<close> is
  the row's own cell number \<open>i\<close> only when no earlier cell holds a table.
\<close>

definition row_record :: "node \<Rightarrow> student" where
  "row_record row =
     (let cells = find_all (str ''td'') row in
      \<lparr>student_id = font_text (cells ! 1), student_name = font_text (cells ! 2),
       course = font_text (cells ! 3), year = font_text (cells ! 4)\<rparr>)"

text \<open>
  One turn of the loop, on the list \<open>students\<close> and the lines printed so far: the record
  is appended when its ID is not empty; an exception prints a line and the loop goes on.
\<close>

definition error_line :: "row_exception \<Rightarrow> ustr" where
  "error_line e = str ''Error processing row: '' @ row_message e"

definition row_step :: "node \<Rightarrow> student list \<times> ustr list \<Rightarrow> student list \<times> ustr list" where
  "row_step row st =
     (case extract_fields row of
        Inl e \<Rightarrow> (fst st, snd st @ [error_line e])
      | Inr s \<Rightarrow> if student_id s \<noteq> [] then (fst st @ [s], snd st) else st)"

fun process_rows :: "node list \<Rightarrow> student list \<times> ustr list \<Rightarrow> student list \<times> ustr list" where
  "process_rows [] st = st"
| "process_rows (row # rows) st = process_rows rows (row_step row st)"

section \<open>Reading the input file\<close>

text \<open>
  A file system gives, for a path, no file, a file that may not be opened, or the bytes
  of the file. A path stands for the file it names: two paths are equal when they name
  the same file.
\<close>

type_synonym byte = "8 word"

datatype file_entry = NoFile | NoAccess | Content "byte list"

type_synonym filesystem = "ustr \<Rightarrow> file_entry"

definition open_read :: "filesystem \<Rightarrow> ustr \<Rightarrow> exn + byte list" where
  "open_read fs path =
     (case fs path of
        NoFile \<Rightarrow> Inl FileNotFoundError
      | NoAccess \<Rightarrow> Inl PermissionError
      | Content bs \<Rightarrow> Inr bs)"

text \<open>
  The codec \<open>windows-1252\<close>: bytes below 0x80 and from 0xA0 are their own code points;
  the table gives 0x80 to 0x9F, where 0xFFFE marks the five bytes with no character.
\<close>

definition cp1252_table :: "nat list" where
  "cp1252_table =
     [0x20AC, 0xFFFE, 0x201A, 0x0192, 0x201E, 0x2026, 0x2020, 0x2021,
      0x02C6, 0x2030, 0x0160, 0x2039, 0x0152, 0xFFFE, 0x017D, 0xFFFE,
      0xFFFE, 0x2018, 0x2019, 0x201C, 0x201D, 0x2022, 0x2013, 0x2014,
      0x02DC, 0x2122, 0x0161, 0x203A, 0x0153, 0xFFFE, 0x017E, 0x0178]"

definition cp1252_char :: "byte \<Rightarrow> nat option" where
  "cp1252_char b =
     (let n = unat b;
          c = (if n < 128 \<or> 160 \<le> n then n else cp1252_table ! (n - 128))
      in if c = 0xFFFE then None else Some c)"

fun decode_cp1252 :: "byte list \<Rightarrow> exn + ustr" where
  "decode_cp1252 [] = Inr []"
| "decode_cp1252 (b # bs) =
     (case cp1252_char b of
        None \<Rightarrow> Inl UnicodeDecodeError
      | Some c \<Rightarrow> (case decode_cp1252 bs of Inl e \<Rightarrow> Inl e | Inr cs \<Rightarrow> Inr (c # cs)))"

definition decode_latin1 :: "byte list \<Rightarrow> exn + ustr" where
  "decode_latin1 bs = Inr (map unat bs)"

text \<open>Text mode with the default \<open>newline\<close>: \<open>\r\n\<close> and \<open>\r\<close> are read as \<open>\n\<close>.\<close>

fun universal_newlines :: "ustr \<Rightarrow> ustr" where
  "universal_newlines [] = []"
| "universal_newlines [c] = [if c = 13 then 10 else c]"
| "universal_newlines (c # d # cs) =
     (if c = 13 \<and> d = 10 then 10 # universal_newlines cs
      else if c = 13 then 10 # universal_newlines (d # cs)
      else c # universal_newlines (d # cs))"

text \<open>\<open>with open(path, 'r', encoding=...) as file: file.read()\<close>\<close>

definition read_text :: "(byte list \<Rightarrow> exn + ustr) \<Rightarrow> filesystem \<Rightarrow> ustr \<Rightarrow> exn + ustr" where
  "read_text decode fs path =
     (case open_read fs path of
        Inl e \<Rightarrow> Inl e
      | Inr bs \<Rightarrow> (case decode bs of Inl e \<Rightarrow> Inl e | Inr t \<Rightarrow> Inr (universal_newlines t)))"

text \<open>The \<open>try\<close> with its \<open>except UnicodeDecodeError\<close>.\<close>

definition read_html :: "filesystem \<Rightarrow> ustr \<Rightarrow> exn + ustr" where
  "read_html fs html_file_path =
     (case read_text decode_cp1252 fs html_file_path of
        Inr t \<Rightarrow> Inr t
      | Inl e \<Rightarrow>
          if e = UnicodeDecodeError then read_text decode_latin1 fs html_file_path
          else Inl e)"

section \<open>Writing the delimited file\<close>

text \<open>
  \<open>csv.DictWriter\<close> with the default dialect: fields joined by commas, a field holding
  a comma, a quote or a line break is put in quotes with its quotes doubled, and the row
  ends with \<open>\r\n\<close>. A row whose only field is empty is written as two quotes.
\<close>

definition needs_quotes :: "ustr \<Rightarrow> bool" where
  "needs_quotes f = list_ex (\<lambda>c. c = 44 \<or> c = 34 \<or> c = 13 \<or> c = 10) f"

fun double_quotes :: "ustr \<Rightarrow> ustr" where
  "double_quotes [] = []"
| "double_quotes (c # cs) = (if c = 34 then 34 # 34 # double_quotes cs else c # double_quotes cs)"

definition csv_field :: "ustr \<Rightarrow> ustr" where
  "csv_field f = (if needs_quotes f then 34 # double_quotes f @ [34] else f)"

fun join_fields :: "ustr list \<Rightarrow> ustr" where
  "join_fields [] = []"
| "join_fields [f] = f"
| "join_fields (f # g # fs) = f @ 44 # join_fields (g # fs)"

definition csv_row :: "ustr list \<Rightarrow> ustr" where
  "csv_row vals =
     (let r = join_fields (map csv_field vals)
      in (if vals \<noteq> [] \<and> r = [] then [34, 34] else r) @ [13, 10])"

definition fieldnames :: "ustr list" where
  "fieldnames = [str ''Student ID'', str ''Student Name'', str ''Course'', str ''Year'']"

definition student_values :: "student \<Rightarrow> ustr list" where
  "student_values s = [student_id s, student_name s, course s, year s]"

text \<open>What \<open>writeheader\<close> and the \<open>writerow\<close> calls hand to the file, one text each.\<close>

definition csv_lines :: "student list \<Rightarrow> ustr list" where
  "csv_lines students = csv_row fieldnames # map (\<lambda>s. csv_row (student_values s)) students"

definition csv_text :: "student list \<Rightarrow> ustr" where
  "csv_text students = concat (csv_lines students)"

text \<open>The file is written in UTF-8, which has no encoding for a surrogate code point.\<close>

definition utf8_char :: "nat \<Rightarrow> byte list option" where
  "utf8_char c =
     (if c < 0x80 then Some [of_nat c]
      else if c < 0x800 then Some [of_nat (0xC0 + c div 64), of_nat (0x80 + c mod 64)]
      else if 0xD800 \<le> c \<and> c < 0xE000 then None
      else if c < 0x10000 then
        Some [of_nat (0xE0 + c div 4096), of_nat (0x80 + c div 64 mod 64), of_nat (0x80 + c mod 64)]
      else if c < 0x110000 then
        Some [of_nat (0xF0 + c div 262144), of_nat (0x80 + c div 4096 mod 64),
              of_nat (0x80 + c div 64 mod 64), of_nat (0x80 + c mod 64)]
      else None)"

fun utf8_encode :: "ustr \<Rightarrow> byte list option" where
  "utf8_encode [] = Some []"
| "utf8_encode (c # cs) =
     (case utf8_char c of
        None \<Rightarrow> None
      | Some b \<Rightarrow> (case utf8_encode cs of None \<Rightarrow> None | Some bs \<Rightarrow> Some (b @ bs)))"

text \<open>
  Each write encodes its text first; a text that cannot be encoded raises, and the file
  keeps what was written before.
\<close>

fun write_lines :: "byte list \<Rightarrow> ustr list \<Rightarrow> byte list \<times> exn option" where
  "write_lines acc [] = (acc, None)"
| "write_lines acc (l # ls) =
     (case utf8_encode l of
        None \<Rightarrow> (acc, Some UnicodeEncodeError)
      | Some b \<Rightarrow> write_lines (acc @ b) ls)"

definition open_write :: "filesystem \<Rightarrow> ustr \<Rightarrow> exn + filesystem" where
  "open_write fs path =
     (case fs path of
        NoAccess \<Rightarrow> Inl PermissionError
      | _ \<Rightarrow> Inr (fs(path := Content [])))"

section \<open>The report\<close>

function decimal :: "nat \<Rightarrow> ustr" where
  "decimal n = (if n < 10 then [48 + n] else decimal (n div 10) @ [48 + n mod 10])"
  by pat_completeness auto
termination
  by (relation "measure (\<lambda>n. n)") auto

declare decimal.simps [simp del]

definition preview_line :: "nat \<times> student \<Rightarrow> ustr" where
  "preview_line p =
     decimal (fst p) @ str ''. '' @ student_id (snd p) @ str '' | '' @ student_name (snd p)
       @ str '' | '' @ course (snd p) @ str '' | Year '' @ year (snd p)"

definition report :: "student list \<Rightarrow> ustr \<Rightarrow> ustr list" where
  "report students output_csv_path =
     [str ''Successfully scraped '' @ decimal (length students) @ str '' students'',
      str ''Data saved to: '' @ output_csv_path,
      10 # str ''Preview of extracted data:'',
      replicate 80 45]
     @ map preview_line (zip [1 ..< 6] (take 5 students))
     @ (if length students > 5
        then [str ''... and '' @ decimal (length students - 5) @ str '' more students'']
        else [])"

definition no_data_line :: ustr where
  "no_data_line = str ''No student data found in the HTML file''"

section \<open>The whole run\<close>

text \<open>
  What a run leaves: the file system, the lines printed, and the exception that ended it,
  if one did.
\<close>

record outcome =
  files :: filesystem
  printed :: "ustr list"
  raised :: "exn option"

text \<open>From \<open>if students:\<close> on.\<close>

definition save :: "filesystem \<Rightarrow> ustr \<Rightarrow> student list \<times> ustr list \<Rightarrow> outcome" where
  "save fs output_csv_path st =
     (let students = fst st; out = snd st in
      if students \<noteq> [] then
        (case open_write fs output_csv_path of
           Inl e \<Rightarrow> \<lparr>files = fs, printed = out, raised = Some e\<rparr>
         | Inr fs' \<Rightarrow>
             (case write_lines [] (csv_lines students) of
                (bs, Some e) \<Rightarrow>
                  \<lparr>files = fs'(output_csv_path := Content bs), printed = out, raised = Some e\<rparr>
              | (bs, None) \<Rightarrow>
                  \<lparr>files = fs'(output_csv_path := Content bs),
                   printed = out @ report students output_csv_path, raised = None\<rparr>))
      else \<lparr>files = fs, printed = out @ [no_data_line], raised = None\<rparr>)"

text \<open>
  \<open>scrape_student_data\<close>, given the interpreter's decimal digits and the parser
  (\<open>BeautifulSoup(html_content, 'html.parser')\<close>, a function from the text to the tree).
\<close>

definition scrape_student_data ::
  "(nat \<Rightarrow> bool) \<Rightarrow> (ustr \<Rightarrow> node) \<Rightarrow> filesystem \<Rightarrow> ustr \<Rightarrow> ustr \<Rightarrow> outcome" where
  "scrape_student_data dec parse fs html_file_path output_csv_path =
     (case read_html fs html_file_path of
        Inl e \<Rightarrow> \<lparr>files = fs, printed = [], raised = Some e\<rparr>
      | Inr html_content \<Rightarrow>
          (let soup = parse html_content;
               student_rows = student_rows dec soup
           in save fs output_csv_path (process_rows student_rows ([], []))))"

section \<open>Reading the table back\<close>

text \<open>
  The program only writes the table. To speak of reading it back, these are the decoder
  and the reader of the Python library, used the way the \<open>csv\<close> module asks for:
  \<open>csv.reader(open(path, newline='', encoding='utf-8'))\<close>.

  The decoder is the strict UTF-8 decoder: it refuses a byte that cannot start a character,
  a missing or wrong continuation byte, an encoding longer than needed, a surrogate and a
  code point above 0x10FFFF.
\<close>

definition continuation :: "nat \<Rightarrow> bool" where
  "continuation b \<longleftrightarrow> 0x80 \<le> b \<and> b < 0xC0"

fun utf8_decode_codes :: "nat list \<Rightarrow> ustr option" where
  "utf8_decode_codes [] = Some []"
| "utf8_decode_codes (b # bs) =
     (if b < 0x80 then map_option ((#) b) (utf8_decode_codes bs)
      else if 0xC2 \<le> b \<and> b < 0xE0 then
        (case bs of
           b1 # r \<Rightarrow>
             if continuation b1
             then map_option ((#) ((b - 0xC0) * 64 + (b1 - 0x80))) (utf8_decode_codes r)
             else None
         | _ \<Rightarrow> None)
      else if 0xE0 \<le> b \<and> b < 0xF0 then
        (case bs of
           b1 # b2 # r \<Rightarrow>
             (let c = (b - 0xE0) * 4096 + (b1 - 0x80) * 64 + (b2 - 0x80) in
              if continuation b1 \<and> continuation b2 \<and> 0x800 \<le> c \<and> \<not> (0xD800 \<le> c \<and> c < 0xE000)
              then map_option ((#) c) (utf8_decode_codes r)
              else None)
         | _ \<Rightarrow> None)
      else if 0xF0 \<le> b \<and> b < 0xF5 then
        (case bs of
           b1 # b2 # b3 # r \<Rightarrow>
             (let c = (b - 0xF0) * 262144 + (b1 - 0x80) * 4096 + (b2 - 0x80) * 64 + (b3 - 0x80) in
              if continuation b1 \<and> continuation b2 \<and> continuation b3 \<and> 0x10000 \<le> c \<and> c < 0x110000
              then map_option ((#) c) (utf8_decode_codes r)
              else None)
         | _ \<Rightarrow> None)
      else None)"

definition utf8_decode :: "byte list \<Rightarrow> ustr option" where
  "utf8_decode bs = utf8_decode_codes (map unat bs)"

text \<open>
  The reader with the default dialect, as the state machine of the module (of
  CPython 3.11 and later, where a NUL character is a character like another). The text is
  cut into lines, kept with their line ends; the characters of a line go through
  \<open>process_char\<close> one by one, and after the last character of a line the machine is
  given the end of the line (\<open>None\<close> here). A record is complete when the end of a line
  leaves the machine in \<open>START_RECORD\<close>. A character is added to a field only while the
  field is shorter than the field size limit, 131072 unless it was changed; otherwise the
  reader raises \<open>csv.Error\<close>, which is \<open>None\<close> here, as is the error for a stray
  character after a line end.
\<close>

datatype rstate =
  START_RECORD | START_FIELD | IN_FIELD | IN_QUOTED_FIELD | QUOTE_IN_QUOTED_FIELD | EAT_CRNL

fun line_ends :: "nat \<Rightarrow> ustr \<Rightarrow> bool" where
  "line_ends c [] = True"
| "line_ends c (d # ds) = (c = 10 \<or> (c = 13 \<and> d \<noteq> 10))"

fun tokens :: "ustr \<Rightarrow> nat option list" where
  "tokens [] = []"
| "tokens (c # cs) = Some c # (if line_ends c cs then [None] else []) @ tokens cs"

definition field_limit :: nat where
  "field_limit = 131072"

definition add_char :: "ustr \<Rightarrow> nat \<Rightarrow> ustr option" where
  "add_char f c = (if length f < field_limit then Some (f @ [c]) else None)"

fun start_field ::
  "ustr \<Rightarrow> ustr list \<Rightarrow> nat option \<Rightarrow> (rstate \<times> ustr \<times> ustr list) option" where
  "start_field f fs None = Some (START_RECORD, [], fs @ [f])"
| "start_field f fs (Some c) =
     (if c = 10 \<or> c = 13 then Some (EAT_CRNL, [], fs @ [f])
      else if c = 34 then Some (IN_QUOTED_FIELD, f, fs)
      else if c = 44 then Some (START_FIELD, [], fs @ [f])
      else map_option (\<lambda>g. (IN_FIELD, g, fs)) (add_char f c))"

fun process_char ::
  "rstate \<Rightarrow> ustr \<Rightarrow> ustr list \<Rightarrow> nat option \<Rightarrow> (rstate \<times> ustr \<times> ustr list) option" where
  "process_char START_RECORD f fs None = Some (START_RECORD, f, fs)"
| "process_char START_RECORD f fs (Some c) =
     (if c = 10 \<or> c = 13 then Some (EAT_CRNL, f, fs) else start_field f fs (Some c))"
| "process_char START_FIELD f fs t = start_field f fs t"
| "process_char IN_FIELD f fs None = Some (START_RECORD, [], fs @ [f])"
| "process_char IN_FIELD f fs (Some c) =
     (if c = 10 \<or> c = 13 then Some (EAT_CRNL, [], fs @ [f])
      else if c = 44 then Some (START_FIELD, [], fs @ [f])
      else map_option (\<lambda>g. (IN_FIELD, g, fs)) (add_char f c))"
| "process_char IN_QUOTED_FIELD f fs None = Some (IN_QUOTED_FIELD, f, fs)"
| "process_char IN_QUOTED_FIELD f fs (Some c) =
     (if c = 34 then Some (QUOTE_IN_QUOTED_FIELD, f, fs)
      else map_option (\<lambda>g. (IN_QUOTED_FIELD, g, fs)) (add_char f c))"
| "process_char QUOTE_IN_QUOTED_FIELD f fs None = Some (START_RECORD, [], fs @ [f])"
| "process_char QUOTE_IN_QUOTED_FIELD f fs (Some c) =
     (if c = 34 then map_option (\<lambda>g. (IN_QUOTED_FIELD, g, fs)) (add_char f c)
      else if c = 44 then Some (START_FIELD, [], fs @ [f])
      else if c = 10 \<or> c = 13 then Some (EAT_CRNL, [], fs @ [f])
      else map_option (\<lambda>g. (IN_FIELD, g, fs)) (add_char f c))"
| "process_char EAT_CRNL f fs None = Some (START_RECORD, f, fs)"
| "process_char EAT_CRNL f fs (Some c) =
     (if c = 10 \<or> c = 13 then Some (EAT_CRNL, f, fs) else None)"

fun read_tokens ::
  "rstate \<Rightarrow> ustr \<Rightarrow> ustr list \<Rightarrow> nat option list \<Rightarrow> ustr list list option" where
  "read_tokens s f fs [] = Some (if f \<noteq> [] \<or> s = IN_QUOTED_FIELD then [fs @ [f]] else [])"
| "read_tokens s f fs (t # ts) =
     (case process_char s f fs t of
        None \<Rightarrow> None
      | Some (s', f', fs') \<Rightarrow>
          if t = None \<and> s' = START_RECORD
          then map_option ((#) fs') (read_tokens START_RECORD [] [] ts)
          else read_tokens s' f' fs' ts)"

definition csv_reader :: "ustr \<Rightarrow> ustr list list option" where
  "csv_reader t = read_tokens START_RECORD [] [] (tokens t)"

definition read_table :: "filesystem \<Rightarrow> ustr \<Rightarrow> ustr list list option" where
  "read_table fs path =
     (case fs path of
        Content bs \<Rightarrow> (case utf8_decode bs of None \<Rightarrow> None | Some t \<Rightarrow> csv_reader t)
      | _ \<Rightarrow> None)"

section \<open>Notions of the specification\<close>

text \<open>
  The cells of a row, as the specification words them: the \<open>td\<close> elements that are
  children of the row. They are the \<open>cells\<close> of the program only when no cell holds a
  \<open>td\<close> of its own.
\<close>

fun children :: "node \<Rightarrow> node list" where
  "children (Tag n a cs) = cs"
| "children (NavigableString s) = []"
| "children (Comment s) = []"

definition child_cells :: "node \<Rightarrow> node list" where
  "child_cells row = filter (tag_named (str ''td'')) (children row)"

text \<open>
  A text \<open>t\<close> is \<open>s\<close> trimmed when \<open>s\<close> is \<open>t\<close> between two runs of white space
  and \<open>t\<close> neither starts nor ends with white space.
\<close>

definition trimmed :: "ustr \<Rightarrow> ustr \<Rightarrow> bool" where
  "trimmed s t \<longleftrightarrow>
     (\<exists>l r. s = l @ t @ r \<and> list_all isspace l \<and> list_all isspace r \<and>
            (t = [] \<or> (\<not> isspace (hd t) \<and> \<not> isspace (last t))))"

definition field_at :: "nat \<Rightarrow> student \<Rightarrow> ustr" where
  "field_at i s =
     (if i = 1 then student_id s else if i = 2 then student_name s
      else if i = 3 then course s else year s)"

definition msg_digits :: "(nat \<Rightarrow> bool) \<Rightarrow> ustr \<Rightarrow> bool" where
  "msg_digits dec v \<longleftrightarrow> (\<exists>ds. ds \<noteq> [] \<and> list_all dec ds \<and> v = str ''msg'' @ ds)"

fun has_class :: "ustr \<Rightarrow> attr_value option \<Rightarrow> bool" where
  "has_class nm None = False"
| "has_class nm (Some (Single v)) = (v = nm)"
| "has_class nm (Some (Multi vs)) = (nm \<in> set vs)"

definition row_signature :: "(nat \<Rightarrow> bool) \<Rightarrow> node \<Rightarrow> bool" where
  "row_signature dec e \<longleftrightarrow>
     tag_named (str ''tr'') e \<and>
     has_class (str ''nav'') (get_attr e (str ''class'')) \<and>
     attr_matches (\<lambda>v. msg_digits dec v \<or> (\<exists>w. v = w @ [10] \<and> msg_digits dec w))
       (get_attr e (str ''id''))"

definition exact_signature :: "(nat \<Rightarrow> bool) \<Rightarrow> node \<Rightarrow> bool" where
  "exact_signature dec e \<longleftrightarrow>
     tag_named (str ''tr'') e \<and>
     (get_attr e (str ''class'') = Some (Single (str ''nav'')) \<or>
      get_attr e (str ''class'') = Some (Multi [str ''nav''])) \<and>
     (\<exists>v. get_attr e (str ''id'') = Some (Single v) \<and> msg_digits dec v)"

text \<open>
  The code points UTF-8 can encode are the Unicode scalar values: every code point of a
  Python text (they are below 0x110000) that is not a surrogate. A record is encodable
  when its four values hold scalar values only, and has short fields when none of its
  values is longer than the field size limit of the reader.
\<close>

definition scalar_value :: "nat \<Rightarrow> bool" where
  "scalar_value c \<longleftrightarrow> c < 0xD800 \<or> (0xE000 \<le> c \<and> c < 0x110000)"

definition encodable :: "student \<Rightarrow> bool" where
  "encodable s \<longleftrightarrow> list_all (list_all scalar_value) (student_values s)"

definition short_fields :: "student \<Rightarrow> bool" where
  "short_fields s \<longleftrightarrow> list_all (\<lambda>v. length v \<le> field_limit) (student_values s)"

subsection \<open>Sample documents\<close>

definition ascii_digit :: "nat \<Rightarrow> bool" where
  "ascii_digit c \<longleftrightarrow> 48 \<le> c \<and> c \<le> 57"

definition cell :: "string \<Rightarrow> node" where
  "cell s = Tag (str ''td'') [] [Tag (str ''font'') [] [NavigableString (str s)]]"

definition tr_row :: "string \<Rightarrow> node list \<Rightarrow> node" where
  "tr_row i cs =
     Tag (str ''tr'') [(str ''class'', Multi [str ''nav'']), (str ''id'', Single (str i))] cs"

definition sample_row :: node where
  "sample_row =
     tr_row ''msg1''
       [Tag (str ''td'') [] [], cell '' 12345 '', cell ''Jane Doe'', cell ''CS101'', cell ''2024'']"

definition short_row :: node where
  "short_row = tr_row ''msg2'' [Tag (str ''td'') [] [], cell ''67890'', cell ''John Roe'']"

definition blank_row :: node where
  "blank_row =
     tr_row ''msg3''
       [Tag (str ''td'') [] [], cell ''  '', cell ''No Id'', cell ''CS102'', cell ''2023'']"

definition sample_soup :: node where
  "sample_soup =
     Tag (str ''[document]'') [] [Tag (str ''table'') [] [sample_row, short_row, blank_row]]"

definition two_class_row :: node where
  "two_class_row =
     Tag (str ''tr'') [(str ''class'', Multi [str ''nav'', str ''odd'']),
                       (str ''id'', Single (str ''msg4''))] []"

definition newline_id_row :: node where
  "newline_id_row =
     Tag (str ''tr'') [(str ''class'', Multi [str ''nav'']),
                       (str ''id'', Single (str ''msg5'' @ [10]))] []"

text \<open>
  Rows whose first cell holds a table with one cell of its own: the first row has four
  cells, the second five.
\<close>

definition nested_cell :: node where
  "nested_cell =
     Tag (str ''td'') [] [Tag (str ''table'') [] [Tag (str ''tr'') [] [cell ''photo'']]]"

definition nested_row :: node where
  "nested_row =
     tr_row ''msg6'' [nested_cell, cell ''12345'', cell ''Jane Doe'', cell ''CS101'']"

definition nested_full_row :: node where
  "nested_full_row =
     tr_row ''msg7''
       [nested_cell, cell ''12345'', cell ''Jane Doe'', cell ''CS101'', cell ''2024'']"

text \<open>
  Two pages as files, with the trees the parser builds for them, and a table left at the
  output path by an earlier run: a page with one row of ID \<open>7\<close>, and a page with a
  row of three cells and a row whose ID is blank.
\<close>

definition page_source :: string where
  "page_source =
     ''<tr class=nav id=msg1><td></td><td><font>7</font></td><td></td><td></td><td></td></tr>''"

definition page_row :: node where
  "page_row =
     tr_row ''msg1''
       [Tag (str ''td'') [] [], cell ''7'', Tag (str ''td'') [] [],
        Tag (str ''td'') [] [], Tag (str ''td'') [] []]"

definition page_tree :: node where
  "page_tree = Tag (str ''[document]'') [] [page_row]"

definition blank_source :: string where
  "blank_source =
     ''<tr class=nav id=msg2><td></td><td><font>67890</font></td><td><font>John Roe</font></td></tr><tr class=nav id=msg3><td></td><td><font>  </font></td><td><font>No Id</font></td><td><font>CS102</font></td><td><font>2023</font></td></tr>''"

definition blank_tree :: node where
  "blank_tree = Tag (str ''[document]'') [] [short_row, blank_row]"

definition sample_parser :: "ustr \<Rightarrow> node" where
  "sample_parser t =
     (if t = str page_source then page_tree
      else if t = str blank_source then blank_tree
      else Tag (str ''[document]'') [] [])"

definition old_table :: "byte list" where
  "old_table = [0x6F, 0x6C, 0x64]"

definition page_files :: filesystem where
  "page_files q =
     (if q = str ''page.html'' then Content (map of_nat (str page_source))
      else if q = str ''students_data.csv'' then Content old_table
      else NoFile)"


definition header_line :: ustr where
  "header_line = str ''Student ID,Student Name,Course,Year'' @ [13, 10]"

definition page_table :: ustr where
  "page_table = header_line @ str ''7'' @ str '',,,'' @ [13, 10]"

definition quoted_student :: student where
  "quoted_student =
     \<lparr>student_id = str ''1'', student_name = str ''Doe, \"JD\" Jane'',
      course = str ''CS'', year = str ''2''\<rparr>"

definition surrogate_student :: student where
  "surrogate_student = \<lparr>student_id = [0xD800], student_name = [], course = [], year = []\<rparr>"

section \<open>Lemmas\<close>

lemma str_eq_Nil: "str s = [] \<longleftrightarrow> s = []"
  by (simp add: str_def)

lemma index_in: "i < length xs \<Longrightarrow> index xs i = Inr (xs ! i)"
  by (simp add: index_def)

lemma index_out: "length xs \<le> i \<Longrightarrow> index xs i = Inl IndexError"
  by (simp add: index_def)

lemma extract_fields_full:
  "5 \<le> length (find_all (str ''td'') row) \<Longrightarrow> extract_fields row = Inr (row_record row)"
  by (simp add: extract_fields_def row_record_def Let_def index_in)

lemma extract_fields_short:
  assumes "length (find_all (str ''td'') row) < 5"
  shows "extract_fields row = Inl IndexError"
  using assms by (auto simp: extract_fields_def Let_def index_def)


lemma trimmed_strip: "trimmed s (strip s)"
proof -
  define l where "l = takeWhile isspace s"
  define u where "u = dropWhile isspace s"
  define r where "r = rev (takeWhile isspace (rev u))"
  have s: "s = l @ u" by (simp add: l_def u_def)
  have t: "strip s = rev (dropWhile isspace (rev u))" by (simp add: strip_def u_def)
  have "strip s @ r = rev (takeWhile isspace (rev u) @ dropWhile isspace (rev u))"
    by (simp only: t r_def rev_append)
  also have "\<dots> = rev (rev u)" by (simp only: takeWhile_dropWhile_id)
  finally have u: "u = strip s @ r" by simp
  have l: "list_all isspace l"
    by (auto simp: l_def list_all_iff dest: set_takeWhileD)
  have r: "list_all isspace r"
    by (auto simp: r_def list_all_iff dest: set_takeWhileD)
  have ends: "\<not> isspace (hd (strip s)) \<and> \<not> isspace (last (strip s))" if ne: "strip s \<noteq> []"
  proof
    from ne u have "u \<noteq> []" by auto
    then have "\<not> isspace (hd u)" unfolding u_def by (rule hd_dropWhile)
    moreover have "hd u = hd (strip s)" using u ne by (metis hd_append2)
    ultimately show "\<not> isspace (hd (strip s))" by simp
    from ne have d: "dropWhile isspace (rev u) \<noteq> []" by (simp add: t)
    then have "\<not> isspace (hd (dropWhile isspace (rev u)))" by (rule hd_dropWhile)
    moreover have "last (strip s) = hd (dropWhile isspace (rev u))"
      using d by (simp add: t last_rev)
    ultimately show "\<not> isspace (last (strip s))" by simp
  qed
  show ?thesis unfolding trimmed_def
  proof (intro exI conjI)
    show "s = l @ strip s @ r" using s u by simp
    show "list_all isspace l" by (rule l)
    show "list_all isspace r" by (rule r)
    show "strip s = [] \<or> (\<not> isspace (hd (strip s)) \<and> \<not> isspace (last (strip s)))"
      using ends by blast
  qed
qed

lemma process_rows_students:
  "fst (process_rows rows st) =
     fst st @ map row_record
       (filter (\<lambda>row. 5 \<le> length (find_all (str ''td'') row) \<and>
                      font_text (find_all (str ''td'') row ! 1) \<noteq> []) rows)"
proof (induction rows arbitrary: st)
  case Nil
  then show ?case by simp
next
  case (Cons row rows)
  show ?case
  proof (cases "5 \<le> length (find_all (str ''td'') row)")
    case True
    then show ?thesis
      by (simp add: Cons.IH row_step_def extract_fields_full row_record_def Let_def)
  next
    case False
    then have "extract_fields row = Inl IndexError" by (simp add: extract_fields_short)
    with False show ?thesis by (simp add: Cons.IH row_step_def)
  qed
qed

lemma process_rows_append:
  "process_rows (xs @ ys) st = process_rows ys (process_rows xs st)"
  by (induction xs arbitrary: st) simp_all




lemma strip_prefix_iff: "strip_prefix p s = Some r \<longleftrightarrow> s = p @ r"
proof (induction p arbitrary: s)
  case Nil
  then show ?case by auto
next
  case (Cons a p)
  then show ?case by (cases s) auto
qed

lemma takeWhile_all: "list_all P xs \<Longrightarrow> takeWhile P xs = xs"
  by (simp add: list_all_iff)

lemma dropWhile_all: "list_all P xs \<Longrightarrow> dropWhile P xs = []"
  by (simp add: list_all_iff)

lemma msg_pattern_search_iff:
  "msg_pattern_search dec s \<longleftrightarrow> msg_digits dec s \<or> (\<exists>w. s = w @ [10] \<and> msg_digits dec w)"
proof
  assume "msg_pattern_search dec s"
  then obtain r where r: "strip_prefix (str ''msg'') s = Some r"
      and ne: "takeWhile dec r \<noteq> []"
      and rest: "dropWhile dec r = [] \<or> dropWhile dec r = [10]"
    by (auto simp: msg_pattern_search_def split: option.splits)
  from r have s: "s = str ''msg'' @ r" by (simp add: strip_prefix_iff)
  have all: "list_all dec (takeWhile dec r)"
    by (auto simp: list_all_iff dest: set_takeWhileD)
  have split: "r = takeWhile dec r @ dropWhile dec r" by simp
  from rest show "msg_digits dec s \<or> (\<exists>w. s = w @ [10] \<and> msg_digits dec w)"
  proof
    assume "dropWhile dec r = []"
    with split have "r = takeWhile dec r" by simp
    with ne all s have "msg_digits dec s" unfolding msg_digits_def by metis
    then show ?thesis ..
  next
    assume "dropWhile dec r = [10]"
    with split have "r = takeWhile dec r @ [10]" by simp
    with s have "s = (str ''msg'' @ takeWhile dec r) @ [10]" by simp
    moreover have "msg_digits dec (str ''msg'' @ takeWhile dec r)"
      unfolding msg_digits_def using ne all by blast
    ultimately show ?thesis by blast
  qed
next
  assume "msg_digits dec s \<or> (\<exists>w. s = w @ [10] \<and> msg_digits dec w)"
  then show "msg_pattern_search dec s"
  proof
    assume "msg_digits dec s"
    then obtain ds where ds: "ds \<noteq> []" "list_all dec ds" "s = str ''msg'' @ ds"
      unfolding msg_digits_def by blast
    have "strip_prefix (str ''msg'') s = Some ds" using ds(3) by (simp add: strip_prefix_iff)
    then show ?thesis
      using ds(1,2) by (simp add: msg_pattern_search_def takeWhile_all dropWhile_all)
  next
    assume "\<exists>w. s = w @ [10] \<and> msg_digits dec w"
    then obtain ds where ds: "ds \<noteq> []" "list_all dec ds" "s = str ''msg'' @ ds @ [10]"
      unfolding msg_digits_def by auto
    have p: "strip_prefix (str ''msg'') s = Some (ds @ [10])"
      using ds(3) by (simp add: strip_prefix_iff)
    have all: "\<forall>x \<in> set ds. dec x" using ds(2) by (simp add: list_all_iff)
    have "takeWhile dec (ds @ [10]) = ds @ takeWhile dec [10]"
      using all by (simp add: takeWhile_append2)
    moreover have "dropWhile dec (ds @ [10]) = dropWhile dec [10]"
      using all by (simp add: dropWhile_append2)
    ultimately show ?thesis using ds(1) p by (simp add: msg_pattern_search_def)
  qed
qed

lemma join_spaces_no_space:
  "32 \<notin> set s \<Longrightarrow> join_spaces vs = s \<Longrightarrow> s \<noteq> [] \<Longrightarrow> vs = [s]"
  by (cases vs rule: join_spaces.cases) auto

lemma class_matches_iff:
  "attr_matches (\<lambda>v. v = str ''nav'') a = has_class (str ''nav'') a"
proof (cases a)
  case None
  then show ?thesis by simp
next
  case (Some av)
  show ?thesis
  proof (cases av)
    case (Single v)
    with Some show ?thesis by simp
  next
    case (Multi vs)
    have "join_spaces vs = str ''nav'' \<Longrightarrow> str ''nav'' \<in> set vs"
      using join_spaces_no_space [of "str ''nav''" vs] by (simp add: str_def)
    with Some Multi show ?thesis by (auto simp: list_ex_iff)
  qed
qed

lemma is_student_row_iff: "is_student_row dec e = row_signature dec e"
proof -
  have "msg_pattern_search dec =
        (\<lambda>v. msg_digits dec v \<or> (\<exists>w. v = w @ [10] \<and> msg_digits dec w))"
    by (rule ext) (rule msg_pattern_search_iff)
  then show ?thesis
    by (simp add: is_student_row_def row_signature_def class_matches_iff)
qed

lemma decode_cp1252_error: "decode_cp1252 bs = Inl e \<Longrightarrow> e = UnicodeDecodeError"
proof (induction bs)
  case Nil
  then show ?case by simp
next
  case (Cons b bs)
  show ?case
  proof (cases "cp1252_char b")
    case None
    with Cons.prems show ?thesis by simp
  next
    case (Some c)
    show ?thesis
    proof (cases "decode_cp1252 bs")
      case (Inl e')
      with Cons Some show ?thesis by simp
    next
      case (Inr t)
      with Cons.prems Some show ?thesis by simp
    qed
  qed
qed

lemma open_write_ok: "fs p \<noteq> NoAccess \<Longrightarrow> open_write fs p = Inr (fs(p := Content []))"
  by (cases "fs p") (simp_all add: open_write_def)

lemma open_write_denied: "fs p = NoAccess \<Longrightarrow> open_write fs p = Inl PermissionError"
  by (simp add: open_write_def)

lemma read_text_same: "fs' p = fs p \<Longrightarrow> read_text d fs' p = read_text d fs p"
  by (simp add: read_text_def open_read_def)

lemma read_html_same:
  assumes "fs' p = fs p"
  shows "read_html fs' p = read_html fs p"
proof -
  have a: "read_text decode_cp1252 fs' p = read_text decode_cp1252 fs p"
    using assms by (rule read_text_same)
  have b: "read_text decode_latin1 fs' p = read_text decode_latin1 fs p"
    using assms by (rule read_text_same)
  show ?thesis unfolding read_html_def a b by (rule refl)
qed

subsection \<open>Evaluating the samples\<close>

lemma sample_row_cells:
  "find_all (str ''td'') sample_row =
     [Tag (str ''td'') [] [], cell '' 12345 '', cell ''Jane Doe'', cell ''CS101'', cell ''2024'']"
  by (simp add: sample_row_def tr_row_def cell_def find_all_def str_def)

lemma short_row_cells:
  "find_all (str ''td'') short_row = [Tag (str ''td'') [] [], cell ''67890'', cell ''John Roe'']"
  by (simp add: short_row_def tr_row_def cell_def find_all_def str_def)

lemma blank_row_cells:
  "find_all (str ''td'') blank_row =
     [Tag (str ''td'') [] [], cell ''  '', cell ''No Id'', cell ''CS102'', cell ''2023'']"
  by (simp add: blank_row_def tr_row_def cell_def find_all_def str_def)

lemma font_text_cell: "font_text (cell s) = strip (str s)"
  by (simp add: font_text_def find_first_def find_all_def get_text_def cell_def str_def)

lemma font_text_empty_cell: "font_text (Tag (str ''td'') [] []) = []"
  by (simp add: font_text_def find_first_def find_all_def)

lemma strip_samples:
  "strip (str '' 12345 '') = str ''12345''" "strip (str ''Jane Doe'') = str ''Jane Doe''"
  "strip (str ''CS101'') = str ''CS101''" "strip (str ''2024'') = str ''2024''"
  "strip (str ''67890'') = str ''67890''" "strip (str ''  '') = []"
  by (simp_all add: strip_def str_def isspace_def)

subsection \<open>Nested cells\<close>

lemma nested_row_cells:
  "find_all (str ''td'') nested_row =
     [nested_cell, cell ''photo'', cell ''12345'', cell ''Jane Doe'', cell ''CS101'']"
  by (simp add: nested_row_def nested_cell_def tr_row_def cell_def find_all_def str_def)

lemma nested_full_row_cells:
  "find_all (str ''td'') nested_full_row =
     [nested_cell, cell ''photo'', cell ''12345'', cell ''Jane Doe'', cell ''CS101'',
      cell ''2024'']"
  by (simp add: nested_full_row_def nested_cell_def tr_row_def cell_def find_all_def str_def)

lemma nested_row_children:
  "child_cells nested_row = [nested_cell, cell ''12345'', cell ''Jane Doe'', cell ''CS101'']"
  by (simp add: child_cells_def nested_row_def nested_cell_def tr_row_def cell_def)

lemma nested_full_row_children:
  "child_cells nested_full_row =
     [nested_cell, cell ''12345'', cell ''Jane Doe'', cell ''CS101'', cell ''2024'']"
  by (simp add: child_cells_def nested_full_row_def nested_cell_def tr_row_def cell_def)

lemma strip_more_samples:
  "strip (str ''photo'') = str ''photo''" "strip (str ''7'') = str ''7''"
  "strip (str ''12345'') = str ''12345''"
  by (simp_all add: strip_def str_def isspace_def)

subsection \<open>The reader on what the writer wrote\<close>

lemma line_ends_plain: "c \<noteq> 10 \<Longrightarrow> c \<noteq> 13 \<Longrightarrow> line_ends c cs = (cs = [])"
  by (cases cs) simp_all

lemma line_ends_newline: "line_ends 10 cs"
  by (cases cs) simp_all

lemma add_char_room: "length f < field_limit \<Longrightarrow> add_char f c = Some (f @ [c])"
  by (simp add: add_char_def)

lemma read_quoted_eol:
  "read_tokens IN_QUOTED_FIELD b fs ((if e then [None] else []) @ ts) =
   read_tokens IN_QUOTED_FIELD b fs ts"
  by simp

lemma read_quoted_content:
  "rest \<noteq> [] \<Longrightarrow> length b + length v \<le> field_limit \<Longrightarrow>
   read_tokens IN_QUOTED_FIELD b fs (tokens (double_quotes v @ 34 # rest)) =
   read_tokens QUOTE_IN_QUOTED_FIELD (b @ v) fs (tokens rest)"
proof (induction v arbitrary: b)
  case Nil
  then show ?case by (simp add: line_ends_plain)
next
  case (Cons c v)
  from Cons.prems(2) have room: "length b < field_limit"
    and rest: "length (b @ [c]) + length v \<le> field_limit" by simp_all
  have step: "read_tokens IN_QUOTED_FIELD (b @ [c]) fs (tokens (double_quotes v @ 34 # rest)) =
      read_tokens QUOTE_IN_QUOTED_FIELD ((b @ [c]) @ v) fs (tokens rest)"
    using Cons.prems(1) rest by (rule Cons.IH)
  show ?case
  proof (cases "c = 34")
    case True
    then show ?thesis using step
      by (simp add: line_ends_plain add_char_room [OF room])
  next
    case False
    then show ?thesis using step
      by (simp del: tokens.simps add: tokens.simps(2) [of c] read_quoted_eol
            add_char_room [OF room])
  qed
qed

lemma read_plain_content:
  "\<not> needs_quotes v \<Longrightarrow> rest \<noteq> [] \<Longrightarrow> length b + length v \<le> field_limit \<Longrightarrow>
   read_tokens IN_FIELD b fs (tokens (v @ rest)) = read_tokens IN_FIELD (b @ v) fs (tokens rest)"
proof (induction v arbitrary: b)
  case Nil
  then show ?case by simp
next
  case (Cons c v)
  from Cons.prems have c: "c \<noteq> 44" "c \<noteq> 34" "c \<noteq> 13" "c \<noteq> 10" and v: "\<not> needs_quotes v"
    by (auto simp: needs_quotes_def)
  from Cons.prems(3) have room: "length b < field_limit"
    and rest: "length (b @ [c]) + length v \<le> field_limit" by simp_all
  have step: "read_tokens IN_FIELD (b @ [c]) fs (tokens (v @ rest)) =
      read_tokens IN_FIELD ((b @ [c]) @ v) fs (tokens rest)"
    using v Cons.prems(2) rest by (rule Cons.IH)
  show ?case using step c Cons.prems(2)
    by (simp add: line_ends_plain add_char_room [OF room])
qed

lemma read_field_comma:
  assumes "rest \<noteq> []" and "length v \<le> field_limit"
  shows "read_tokens START_FIELD [] fs (tokens (csv_field v @ 44 # rest)) =
         read_tokens START_FIELD [] (fs @ [v]) (tokens rest)"
proof (cases "needs_quotes v")
  case True
  then show ?thesis
    using read_quoted_content [of "44 # rest" "[]" v fs] assms
    by (simp add: csv_field_def line_ends_plain)
next
  case False
  show ?thesis
  proof (cases v)
    case Nil
    then show ?thesis using False assms by (simp add: csv_field_def line_ends_plain)
  next
    case (Cons c w)
    with False have c: "c \<noteq> 44" "c \<noteq> 34" "c \<noteq> 13" "c \<noteq> 10" and w: "\<not> needs_quotes w"
      by (auto simp: needs_quotes_def)
    have room: "length ([]::ustr) < field_limit" using assms(2) Cons by simp
    have len: "length [c] + length w \<le> field_limit" using assms(2) Cons by simp
    have "read_tokens IN_FIELD [c] fs (tokens (w @ 44 # rest)) =
          read_tokens IN_FIELD ([c] @ w) fs (tokens (44 # rest))"
      using w _ len by (rule read_plain_content) simp
    then show ?thesis using False Cons c assms(1)
      by (simp add: csv_field_def line_ends_plain add_char_room [OF room])
  qed
qed

lemma read_field_end:
  assumes "length v \<le> field_limit"
  shows "read_tokens START_FIELD [] fs (tokens (csv_field v @ 13 # 10 # rest)) =
         map_option ((#) (fs @ [v])) (read_tokens START_RECORD [] [] (tokens rest))"
proof (cases "needs_quotes v")
  case True
  then show ?thesis
    using read_quoted_content [of "13 # 10 # rest" "[]" v fs] assms
    by (simp add: csv_field_def line_ends_plain line_ends_newline)
next
  case False
  show ?thesis
  proof (cases v)
    case Nil
    then show ?thesis using False by (simp add: csv_field_def line_ends_newline)
  next
    case (Cons c w)
    with False have c: "c \<noteq> 44" "c \<noteq> 34" "c \<noteq> 13" "c \<noteq> 10" and w: "\<not> needs_quotes w"
      by (auto simp: needs_quotes_def)
    have room: "length ([]::ustr) < field_limit" using assms Cons by simp
    have len: "length [c] + length w \<le> field_limit" using assms Cons by simp
    have "read_tokens IN_FIELD [c] fs (tokens (w @ 13 # 10 # rest)) =
          read_tokens IN_FIELD ([c] @ w) fs (tokens (13 # 10 # rest))"
      using w _ len by (rule read_plain_content) simp
    then show ?thesis using False Cons c
      by (simp add: csv_field_def line_ends_plain line_ends_newline add_char_room [OF room])
  qed
qed

lemma csv_field_first:
  "\<exists>c x. csv_field v @ 44 # rest = c # x \<and> c \<noteq> 10 \<and> c \<noteq> 13"
proof (cases "needs_quotes v")
  case True
  then show ?thesis by (simp add: csv_field_def)
next
  case False
  then show ?thesis by (cases v) (auto simp: csv_field_def needs_quotes_def)
qed

lemma read_record_start:
  "read_tokens START_RECORD [] [] (tokens (csv_field v @ 44 # rest)) =
   read_tokens START_FIELD [] [] (tokens (csv_field v @ 44 # rest))"
proof -
  obtain c x where cx: "csv_field v @ 44 # rest = c # x" "c \<noteq> 10" "c \<noteq> 13"
    using csv_field_first by blast
  show ?thesis unfolding cx(1) using cx(2,3) by simp
qed

lemma csv_row4:
  "csv_row [a, b, c, d] =
   csv_field a @ 44 # csv_field b @ 44 # csv_field c @ 44 # csv_field d @ [13, 10]"
  by (simp add: csv_row_def)

lemma read_row:
  assumes "length a \<le> field_limit" and "length b \<le> field_limit"
      and "length c \<le> field_limit" and "length d \<le> field_limit"
  shows "read_tokens START_RECORD [] [] (tokens (csv_row [a, b, c, d] @ rest)) =
         map_option ((#) [a, b, c, d]) (read_tokens START_RECORD [] [] (tokens rest))"
proof -
  have "read_tokens START_RECORD [] [] (tokens (csv_row [a, b, c, d] @ rest)) =
        read_tokens START_FIELD [] []
          (tokens (csv_field a @ 44 # (csv_field b @ 44 # csv_field c @ 44 # csv_field d @ 13 # 10 # rest)))"
    using read_record_start [of a "csv_field b @ 44 # csv_field c @ 44 # csv_field d @ 13 # 10 # rest"]
    by (simp add: csv_row4)
  also have "\<dots> = read_tokens START_FIELD [] [a]
          (tokens (csv_field b @ 44 # (csv_field c @ 44 # csv_field d @ 13 # 10 # rest)))"
    using read_field_comma [of "csv_field b @ 44 # csv_field c @ 44 # csv_field d @ 13 # 10 # rest" a "[]"]
      assms(1) by simp
  also have "\<dots> = read_tokens START_FIELD [] [a, b]
          (tokens (csv_field c @ 44 # (csv_field d @ 13 # 10 # rest)))"
    using read_field_comma [of "csv_field c @ 44 # csv_field d @ 13 # 10 # rest" b "[a]"]
      assms(2) by simp
  also have "\<dots> = read_tokens START_FIELD [] [a, b, c] (tokens (csv_field d @ 13 # 10 # rest))"
    using read_field_comma [of "csv_field d @ 13 # 10 # rest" c "[a, b]"] assms(3)
    by simp
  also have "\<dots> = map_option ((#) [a, b, c, d]) (read_tokens START_RECORD [] [] (tokens rest))"
    using read_field_end [of d "[a, b, c]" rest] assms(4) by simp
  finally show ?thesis .
qed

lemma read_rows:
  "list_all short_fields students \<Longrightarrow>
   read_tokens START_RECORD [] [] (tokens (concat (map (\<lambda>s. csv_row (student_values s)) students))) =
   Some (map student_values students)"
proof (induction students)
  case Nil
  then show ?case by simp
next
  case (Cons s students)
  then have "length (student_id s) \<le> field_limit" "length (student_name s) \<le> field_limit"
      "length (course s) \<le> field_limit" "length (year s) \<le> field_limit"
    by (simp_all add: short_fields_def student_values_def)
  from read_row [OF this] Cons show ?case
    by (simp add: student_values_def)
qed

lemma fieldnames_short:
  "length (str ''Student ID'') \<le> field_limit" "length (str ''Student Name'') \<le> field_limit"
  "length (str ''Course'') \<le> field_limit" "length (str ''Year'') \<le> field_limit"
  by (simp_all add: str_def field_limit_def)

lemma csv_text_read:
  "list_all short_fields students \<Longrightarrow>
   csv_reader (csv_text students) = Some (fieldnames # map student_values students)"
  using read_row [OF fieldnames_short,
      of "concat (map (\<lambda>s. csv_row (student_values s)) students)"]
  by (simp add: csv_reader_def csv_text_def csv_lines_def fieldnames_def read_rows)

subsection \<open>Encoding and decoding\<close>

lemma unat_byte: "n < 256 \<Longrightarrow> unat (of_nat n :: byte) = n"
  by (simp add: unat_of_nat)

lemma utf8_char_scalar: "(\<exists>b. utf8_char c = Some b) \<longleftrightarrow> scalar_value c"
  by (auto simp: utf8_char_def scalar_value_def)

lemma decode_one:
  assumes "c < 0x80"
  shows "utf8_decode_codes (c # r) = map_option ((#) c) (utf8_decode_codes r)"
  using assms by simp

lemma decode_two:
  assumes "0x80 \<le> c" and "c < 0x800"
  shows "utf8_decode_codes ((0xC0 + c div 64) # (0x80 + c mod 64) # r) =
         map_option ((#) c) (utf8_decode_codes r)"
proof -
  have a: "2 \<le> c div 64" using assms(1) by (simp add: less_eq_div_iff_mult_less_eq)
  have a': "c div 64 < 32" using assms(2) by (simp add: div_less_iff_less_mult)
  have b: "c mod 64 < 64" by simp
  have e: "c div 64 * 64 + c mod 64 = c" by simp
  show ?thesis using a a' b by (simp add: continuation_def e)
qed

lemma mod64_bound: "(m::nat) mod 64 < 128"
proof -
  have "m mod 64 < 64" by simp
  then show ?thesis by (rule less_trans) simp
qed

lemma shift_two: "(a * 64 + b) * 64 = a * 4096 + b * (64::nat)"
  by simp

lemma shift_three: "(a * 64 + b) * 4096 = a * 262144 + b * (4096::nat)"
  by simp

lemma split_three: "(c::nat) div 4096 * 4096 + c div 64 mod 64 * 64 + c mod 64 = c"
proof -
  define d where "d = c div 64"
  have q: "c div 4096 = d div 64" by (simp add: d_def div_mult2_eq [symmetric])
  have 1: "d div 64 * 64 + d mod 64 = d" by simp
  have 2: "d * 64 + c mod 64 = c" by (simp add: d_def)
  have "d div 64 * 4096 + d mod 64 * 64 = (d div 64 * 64 + d mod 64) * 64"
    by (rule shift_two [symmetric])
  also have "\<dots> = d * 64" by (simp only: 1)
  finally have "d div 64 * 4096 + d mod 64 * 64 + c mod 64 = c" by (simp only: 2)
  then show ?thesis by (simp only: q d_def)
qed

lemma split_four:
  "(c::nat) div 262144 * 262144 + c div 4096 mod 64 * 4096 + c div 64 mod 64 * 64 + c mod 64 = c"
proof -
  define d where "d = c div 4096"
  have q: "c div 262144 = d div 64" by (simp add: d_def div_mult2_eq [symmetric])
  have 1: "d div 64 * 64 + d mod 64 = d" by simp
  have "d div 64 * 262144 + d mod 64 * 4096 = (d div 64 * 64 + d mod 64) * 4096"
    by (rule shift_three [symmetric])
  also have "\<dots> = d * 4096" by (simp only: 1)
  finally have "c div 262144 * 262144 + c div 4096 mod 64 * 4096 = c div 4096 * 4096"
    by (simp only: q d_def)
  then show ?thesis using split_three [of c] by (simp only:)
qed

lemma decode_three:
  assumes "0x800 \<le> c" and "c < 0x10000" and "c < 0xD800 \<or> 0xE000 \<le> c"
  shows "utf8_decode_codes
           ((0xE0 + c div 4096) # (0x80 + c div 64 mod 64) # (0x80 + c mod 64) # r) =
         map_option ((#) c) (utf8_decode_codes r)"
proof -
  define x where "x = c div 4096"
  define y where "y = c div 64 mod 64"
  define z where "z = c mod 64"
  have a: "x < 16" using assms(2) by (simp add: x_def div_less_iff_less_mult)
  have b: "y < 64" "z < 64" by (simp_all add: y_def z_def)
  have e: "x * 4096 + y * 64 + z = c" unfolding x_def y_def z_def by (rule split_three)
  have "utf8_decode_codes ((0xE0 + x) # (0x80 + y) # (0x80 + z) # r) =
         map_option ((#) c) (utf8_decode_codes r)"
    using a b assms by (auto simp: continuation_def e Let_def)
  then show ?thesis by (simp only: x_def y_def z_def)
qed

lemma decode_four:
  assumes "0x10000 \<le> c" and "c < 0x110000"
  shows "utf8_decode_codes
           ((0xF0 + c div 262144) # (0x80 + c div 4096 mod 64) # (0x80 + c div 64 mod 64) #
            (0x80 + c mod 64) # r) =
         map_option ((#) c) (utf8_decode_codes r)"
proof -
  define w where "w = c div 262144"
  define x where "x = c div 4096 mod 64"
  define y where "y = c div 64 mod 64"
  define z where "z = c mod 64"
  have a: "w < 5" using assms(2) by (simp add: w_def div_less_iff_less_mult)
  have b: "x < 64" "y < 64" "z < 64" by (simp_all add: x_def y_def z_def)
  have e: "w * 262144 + x * 4096 + y * 64 + z = c"
    unfolding w_def x_def y_def z_def by (rule split_four)
  have "utf8_decode_codes ((0xF0 + w) # (0x80 + x) # (0x80 + y) # (0x80 + z) # r) =
         map_option ((#) c) (utf8_decode_codes r)"
    using a b assms by (simp add: continuation_def e Let_def)
  then show ?thesis by (simp only: w_def x_def y_def z_def)
qed

lemma unat_bytes:
  "list_all (\<lambda>n. n < 256) ns \<Longrightarrow> map unat (map of_nat ns :: byte list) = ns"
  by (induction ns) (simp_all add: unat_byte)

lemma utf8_char_decode:
  assumes "utf8_char c = Some b"
  shows "utf8_decode_codes (map unat b @ r) = map_option ((#) c) (utf8_decode_codes r)"
proof -
  consider (one) "c < 0x80"
    | (two) "0x80 \<le> c" "c < 0x800"
    | (three) "0x800 \<le> c" "c < 0x10000" "c < 0xD800 \<or> 0xE000 \<le> c"
    | (four) "0x10000 \<le> c" "c < 0x110000"
    | (none) "(0xD800 \<le> c \<and> c < 0xE000) \<or> 0x110000 \<le> c"
    by linarith
  then show ?thesis
  proof cases
    case one
    have "utf8_char c = Some (map of_nat [c])" using one by (simp add: utf8_char_def)
    with assms have b: "b = map of_nat [c]" by simp
    have "map unat b = [c]" unfolding b by (rule unat_bytes) (use one in simp)
    then show ?thesis using decode_one [OF one] by simp
  next
    case two
    have "utf8_char c = Some (map of_nat [0xC0 + c div 64, 0x80 + c mod 64])"
      using two by (simp add: utf8_char_def)
    with assms have b: "b = map of_nat [0xC0 + c div 64, 0x80 + c mod 64]" by simp
    have "c div 64 < 32" using two(2) by (simp add: div_less_iff_less_mult)
    then have "list_all (\<lambda>n. n < 256) [0xC0 + c div 64, 0x80 + c mod 64]"
      by (simp add: mod64_bound)
    then have "map unat b = [0xC0 + c div 64, 0x80 + c mod 64]" unfolding b by (rule unat_bytes)
    then show ?thesis using decode_two [OF two] by simp
  next
    case three
    have "utf8_char c =
        Some (map of_nat [0xE0 + c div 4096, 0x80 + c div 64 mod 64, 0x80 + c mod 64])"
      using three by (auto simp: utf8_char_def)
    with assms have b:
      "b = map of_nat [0xE0 + c div 4096, 0x80 + c div 64 mod 64, 0x80 + c mod 64]" by simp
    have "c div 4096 < 16" using three(2) by (simp add: div_less_iff_less_mult)
    then have "list_all (\<lambda>n. n < 256)
        [0xE0 + c div 4096, 0x80 + c div 64 mod 64, 0x80 + c mod 64]"
      by (simp add: mod64_bound)
    then have "map unat b = [0xE0 + c div 4096, 0x80 + c div 64 mod 64, 0x80 + c mod 64]"
      unfolding b by (rule unat_bytes)
    then show ?thesis using decode_three [OF three] by simp
  next
    case four
    have "utf8_char c =
        Some (map of_nat [0xF0 + c div 262144, 0x80 + c div 4096 mod 64,
                          0x80 + c div 64 mod 64, 0x80 + c mod 64])"
      using four by (auto simp: utf8_char_def)
    with assms have b:
      "b = map of_nat [0xF0 + c div 262144, 0x80 + c div 4096 mod 64,
                       0x80 + c div 64 mod 64, 0x80 + c mod 64]" by simp
    have "c div 262144 < 5" using four(2) by (simp add: div_less_iff_less_mult)
    then have "list_all (\<lambda>n. n < 256)
        [0xF0 + c div 262144, 0x80 + c div 4096 mod 64,
         0x80 + c div 64 mod 64, 0x80 + c mod 64]"
      by (simp add: mod64_bound)
    then have "map unat b = [0xF0 + c div 262144, 0x80 + c div 4096 mod 64,
                             0x80 + c div 64 mod 64, 0x80 + c mod 64]"
      unfolding b by (rule unat_bytes)
    then show ?thesis using decode_four [OF four] by simp
  next
    case none
    then have "utf8_char c = None" by (auto simp: utf8_char_def)
    with assms show ?thesis by simp
  qed
qed

lemma utf8_encode_decode: "utf8_encode t = Some bs \<Longrightarrow> utf8_decode bs = Some t"
proof (induction t arbitrary: bs)
  case Nil
  then show ?case by (simp add: utf8_decode_def)
next
  case (Cons c t)
  from Cons.prems obtain b bs' where b: "utf8_char c = Some b"
      and t: "utf8_encode t = Some bs'" and bs: "bs = b @ bs'"
    by (auto split: option.splits)
  have "utf8_decode bs' = Some t" using t by (rule Cons.IH)
  then show ?case using utf8_char_decode [OF b, of "map unat bs'"]
    by (simp add: utf8_decode_def bs del: utf8_decode_codes.simps)
qed

lemma utf8_encode_scalar: "list_all scalar_value t \<Longrightarrow> \<exists>bs. utf8_encode t = Some bs"
proof (induction t)
  case Nil
  then show ?case by simp
next
  case (Cons c t)
  then obtain b bs where "utf8_char c = Some b" "utf8_encode t = Some bs"
    using utf8_char_scalar [of c] by auto
  then show ?case by simp
qed

lemma utf8_encode_append:
  "utf8_encode a = Some x \<Longrightarrow> utf8_encode b = Some y \<Longrightarrow> utf8_encode (a @ b) = Some (x @ y)"
  by (induction a arbitrary: x) (auto split: option.splits)

lemma utf8_encode_surrogate: "0xD800 \<in> set t \<Longrightarrow> utf8_encode t = None"
  by (induction t) (auto simp: utf8_char_def split: option.splits)

lemma write_lines_some:
  "utf8_encode l = Some b \<Longrightarrow> write_lines acc (l # ls) = write_lines (acc @ b) ls"
  by simp

lemma utf8_encode_split:
  "utf8_encode (a @ b) = Some bs \<Longrightarrow>
   \<exists>x y. utf8_encode a = Some x \<and> utf8_encode b = Some y \<and> bs = x @ y"
  by (induction a arbitrary: bs) (auto split: option.splits)

lemma write_lines_all:
  "utf8_encode (concat ls) = Some bs \<Longrightarrow> write_lines acc ls = (acc @ bs, None)"
proof (induction ls arbitrary: acc bs)
  case Nil
  then show ?case by simp
next
  case (Cons l ls)
  then obtain x y where x: "utf8_encode l = Some x" and y: "utf8_encode (concat ls) = Some y"
      and bs: "bs = x @ y"
    using utf8_encode_split [of l "concat ls" bs] by auto
  show ?case using Cons.IH [OF y, of "acc @ x"] x bs by simp
qed

lemma scalar_small: "c < 0xD800 \<Longrightarrow> scalar_value c"
  by (simp add: scalar_value_def)

lemma scalar_double_quotes: "list_all scalar_value v \<Longrightarrow> list_all scalar_value (double_quotes v)"
  by (induction v) (simp_all add: scalar_small)

lemma scalar_csv_field: "list_all scalar_value v \<Longrightarrow> list_all scalar_value (csv_field v)"
  by (simp add: csv_field_def scalar_double_quotes scalar_small)

lemma scalar_csv_row:
  assumes "list_all scalar_value a" and "list_all scalar_value b"
      and "list_all scalar_value c" and "list_all scalar_value d"
  shows "list_all scalar_value (csv_row [a, b, c, d])"
  using assms by (simp add: csv_row4 scalar_csv_field scalar_small)

lemma scalar_header: "list_all scalar_value (csv_row fieldnames)"
  unfolding fieldnames_def by (rule scalar_csv_row) (simp_all add: str_def scalar_small)

lemma scalar_rows:
  "list_all encodable students \<Longrightarrow>
   list_all scalar_value (concat (map (\<lambda>s. csv_row (student_values s)) students))"
proof (induction students)
  case Nil
  then show ?case by simp
next
  case (Cons s students)
  then have "list_all scalar_value (student_id s)" "list_all scalar_value (student_name s)"
      "list_all scalar_value (course s)" "list_all scalar_value (year s)"
    by (simp_all add: encodable_def student_values_def)
  then have "list_all scalar_value (csv_row (student_values s))"
    unfolding student_values_def by (rule scalar_csv_row)
  then show ?case using Cons by simp
qed

lemma scalar_csv_text: "list_all encodable students \<Longrightarrow> list_all scalar_value (csv_text students)"
  using scalar_header by (simp add: csv_text_def csv_lines_def scalar_rows)

lemma table_read_back:
  assumes "fs p = Content bs" and "utf8_encode (csv_text students) = Some bs"
      and "list_all short_fields students"
  shows "read_table fs p = Some (fieldnames # map student_values students)"
proof -
  have "utf8_decode bs = Some (csv_text students)" using assms(2) by (rule utf8_encode_decode)
  then show ?thesis using assms(1) csv_text_read [OF assms(3)] by (simp add: read_table_def)
qed

subsection \<open>Whole runs\<close>

lemma save_files:
  assumes "fst st \<noteq> []" and "fs p \<noteq> NoAccess"
      and "write_lines [] (csv_lines (fst st)) = (bs, e)"
  shows "files (save fs p st) = fs(p := Content bs)"
  using assms by (cases e) (simp_all add: save_def open_write_ok)

lemma save_raised:
  assumes "fst st \<noteq> []" and "fs p \<noteq> NoAccess"
      and "write_lines [] (csv_lines (fst st)) = (bs, e)"
  shows "raised (save fs p st) = e"
  using assms by (cases e) (simp_all add: save_def open_write_ok)

lemma decode_cp1252_ascii: "list_all (\<lambda>c. c < 128) t \<Longrightarrow> decode_cp1252 (map of_nat t) = Inr t"
proof (induction t)
  case Nil
  then show ?case by simp
next
  case (Cons c t)
  then have c: "c < 128" and t: "decode_cp1252 (map of_nat t) = Inr t" by simp_all
  have "unat (of_nat c :: byte) = c" using c by (simp add: unat_of_nat)
  then have "cp1252_char (of_nat c) = Some c" using c by (simp add: cp1252_char_def)
  then show ?case using t by simp
qed

lemma utf8_encode_ascii: "list_all (\<lambda>c. c < 128) t \<Longrightarrow> utf8_encode t = Some (map of_nat t)"
  by (induction t) (simp_all add: utf8_char_def)

lemma universal_newlines_plain: "13 \<notin> set t \<Longrightarrow> universal_newlines t = t"
  by (induction t rule: universal_newlines.induct) auto

lemma ascii_read:
  assumes "fs p = Content (map of_nat t)" and "list_all (\<lambda>c. c < 128) t" and "13 \<notin> set t"
  shows "read_html fs p = Inr t"
  using assms
  by (simp add: read_html_def read_text_def open_read_def decode_cp1252_ascii
        universal_newlines_plain)

lemma write_two_lines:
  assumes "list_all (\<lambda>c. c < 128) a" and "list_all (\<lambda>c. c < 128) b"
  shows "write_lines [] [a, b] = (map of_nat (a @ b), None)"
  using assms by (simp add: utf8_encode_ascii)

lemma header_line_ascii: "list_all (\<lambda>c. c < 128) header_line"
  by (simp add: header_line_def str_def)

lemma csv_lines_single:
  "\<not> needs_quotes v \<Longrightarrow> v \<noteq> [] \<Longrightarrow>
   csv_lines [\<lparr>student_id = v, student_name = [], course = [], year = []\<rparr>] =
     [header_line, v @ str '',,,'' @ [13, 10]]"
  by (simp add: csv_lines_def csv_row_def csv_field_def needs_quotes_def fieldnames_def
        student_values_def header_line_def str_def)

lemma page_read:
  "read_html page_files (str ''page.html'') = Inr (str page_source)"
proof (rule ascii_read)
  show "page_files (str ''page.html'') = Content (map of_nat (str page_source))"
    by (simp add: page_files_def)
  show "list_all (\<lambda>c. c < 128) (str page_source)" by (simp add: str_def page_source_def)
  show "13 \<notin> set (str page_source)" by (simp add: str_def page_source_def)
qed


lemma page_parsed: "sample_parser (str page_source) = page_tree"
  by (simp add: sample_parser_def)


lemma page_rows: "student_rows ascii_digit page_tree = [page_row]"
  by (simp add: student_rows_def page_tree_def is_student_row_def page_row_def tr_row_def
        cell_def msg_pattern_search_def ascii_digit_def str_def)


lemma page_row_cells:
  "find_all (str ''td'') page_row =
     [Tag (str ''td'') [] [], cell ''7'', Tag (str ''td'') [] [],
      Tag (str ''td'') [] [], Tag (str ''td'') [] []]"
  by (simp add: page_row_def tr_row_def cell_def find_all_def str_def)

lemma page_row_record:
  "process_rows [page_row] ([], []) =
     ([\<lparr>student_id = str ''7'', student_name = [], course = [], year = []\<rparr>], [])"
proof -
  have "extract_fields page_row = Inr (row_record page_row)"
    by (rule extract_fields_full) (simp add: page_row_cells)
  moreover have "row_record page_row =
      \<lparr>student_id = str ''7'', student_name = [], course = [], year = []\<rparr>"
    by (simp add: row_record_def page_row_cells font_text_cell font_text_empty_cell
          strip_more_samples)
  moreover have "str ''7'' \<noteq> []" by (simp add: str_def)
  ultimately show ?thesis by (simp add: row_step_def)
qed


lemma first_run:
  assumes "page_files output_csv_path \<noteq> NoAccess"
  shows "files (scrape_student_data ascii_digit sample_parser page_files
            (str ''page.html'') output_csv_path) =
         page_files (output_csv_path := Content (map of_nat page_table))"
proof -
  have n: "str ''7'' \<noteq> []" by (simp add: str_def)
  have q: "\<not> needs_quotes (str ''7'')" by (simp add: needs_quotes_def str_def)
  have l: "csv_lines [\<lparr>student_id = str ''7'', student_name = [], course = [], year = []\<rparr>] =
      [header_line, str ''7'' @ str '',,,'' @ [13, 10]]"
    using q n by (rule csv_lines_single)
  have b: "list_all (\<lambda>c. c < 128) (str ''7'' @ str '',,,'' @ [13, 10])"
    by (simp add: str_def)
  have w: "write_lines []
        (csv_lines [\<lparr>student_id = str ''7'', student_name = [], course = [], year = []\<rparr>]) =
      (map of_nat page_table, None)"
    unfolding l page_table_def using header_line_ascii b by (rule write_two_lines)
  have "files (save page_files output_csv_path
          ([\<lparr>student_id = str ''7'', student_name = [], course = [], year = []\<rparr>], [])) =
      page_files (output_csv_path := Content (map of_nat page_table))"
    by (rule save_files [where e = None]) (simp_all add: assms w)
  then have "files (save page_files output_csv_path (process_rows [page_row] ([], []))) =
      page_files (output_csv_path := Content (map of_nat page_table))"
    by (simp only: page_row_record)
  then show ?thesis
    by (simp add: scrape_student_data_def page_read page_parsed page_rows
          del: process_rows.simps)
qed

section \<open>The claims\<close>



text \<open>
  C2. The records collected from the rows are the records of the rows that have at least
  five \<open>td\<close> elements below them, those of nested tables counted, and whose Student ID,
  the trimmed text of the first \<open>font\<close> element in the second of these \<open>td\<close>
  elements, is not empty: one record for each such row and none for another row, in the
  order of the rows in the document. (A Student ID alone is not enough: see the row below,
  which has one and gives no record.)
\<close>

theorem output_table_in_document_order:
  "fst (process_rows rows ([], [])) =
     map row_record
       (filter (\<lambda>row. 5 \<le> length (find_all (str ''td'') row) \<and>
                      font_text (find_all (str ''td'') row ! 1) \<noteq> []) rows)"
  using process_rows_students [of rows "([], [])"] by simp

theorem output_table_in_document_order_witness:
  "fst (process_rows [sample_row, short_row, blank_row] ([], [])) = [row_record sample_row]"
  using output_table_in_document_order [of "[sample_row, short_row, blank_row]"]
  by (simp add: sample_row_cells short_row_cells blank_row_cells
        font_text_cell strip_samples str_eq_Nil)

text \<open>
  A selected row with three cells whose second cell holds the ID \<open>67890\<close>: its trimmed
  ID is not empty, and no record is collected from it.
\<close>

theorem short_row_counterexample:
  "is_student_row ascii_digit short_row \<and>
   font_text (find_all (str ''td'') short_row ! 1) = str ''67890'' \<and>
   fst (process_rows [short_row] ([], [])) = []"
proof -
  have "extract_fields short_row = Inl IndexError"
    by (rule extract_fields_short) (simp add: short_row_cells)
  moreover have "is_student_row ascii_digit short_row"
    by (simp add: is_student_row_def short_row_def tr_row_def msg_pattern_search_def
          ascii_digit_def str_def)
  ultimately show ?thesis
    by (simp add: short_row_cells font_text_cell strip_samples row_step_def)
qed

text \<open>
  C3. The rows selected are, in document order, exactly the elements below the root that
  are \<open>tr\<close> tags, have \<open>nav\<close> as their class attribute or as one of its classes,
  and whose id is \<open>msg\<close> followed by one or more decimal digits, possibly followed by
  one final newline. When no element is of this kind the result is the empty list. (This
  is wider than a class attribute equal to \<open>nav\<close> and an id that is only
  \<open>msg\<close> and digits: see the two rows below.)
\<close>

theorem student_rows_signature:
  "student_rows dec soup = filter (row_signature dec) (descendants soup)"
proof -
  have "is_student_row dec = row_signature dec"
    by (rule ext) (rule is_student_row_iff)
  then show ?thesis by (simp add: student_rows_def)
qed

theorem student_rows_signature_witness:
  "student_rows ascii_digit sample_soup =
     filter (row_signature ascii_digit) (descendants sample_soup) \<and>
   student_rows ascii_digit sample_soup = [sample_row, short_row, blank_row]"
proof -
  have "student_rows ascii_digit sample_soup = [sample_row, short_row, blank_row]"
    by (simp add: student_rows_def sample_soup_def is_student_row_def sample_row_def
          short_row_def blank_row_def tr_row_def cell_def msg_pattern_search_def
          ascii_digit_def str_def)
  then show ?thesis using student_rows_signature [of ascii_digit sample_soup] by simp
qed

text \<open>
  A row of class \<open>nav odd\<close> and a row whose id is \<open>msg5\<close> followed by a newline
  are both selected; neither has a class attribute equal to \<open>nav\<close> together with an
  id made of \<open>msg\<close> and digits only.
\<close>

theorem class_list_counterexample:
  "student_rows ascii_digit (Tag (str ''[document]'') [] [two_class_row, newline_id_row]) =
     [two_class_row, newline_id_row] \<and>
   \<not> exact_signature ascii_digit two_class_row \<and>
   \<not> exact_signature ascii_digit newline_id_row"
proof -
  have "\<not> msg_digits ascii_digit (str ''msg5'' @ [10])"
    by (auto simp: msg_digits_def str_def ascii_digit_def)
  then show ?thesis
    by (simp add: student_rows_def is_student_row_def two_class_row_def newline_id_row_def
          exact_signature_def msg_pattern_search_def ascii_digit_def str_def)
qed

text \<open>
  C4. For a row with fewer than five \<open>td\<close> elements below it, those of nested tables
  counted with the row's own cells, the extraction of the fields raises \<open>IndexError\<close>;
  the turn of the loop adds no record, prints the line
  \<open>Error processing row: list index out of range\<close>, and the loop goes on with the
  rows that remain: the exception is not seen outside the turn. (Fewer than five cells of
  the row's own are not enough for this: see the row below.)
\<close>

theorem short_row_skipped:
  assumes "length (find_all (str ''td'') row) < 5"
  shows "extract_fields row = Inl IndexError \<and>
         row_step row (students, out) =
           (students, out @ [str ''Error processing row: list index out of range'']) \<and>
         process_rows (row # rows) (students, out) =
           process_rows rows
             (students, out @ [str ''Error processing row: list index out of range''])"
proof -
  have e: "extract_fields row = Inl IndexError" using assms by (rule extract_fields_short)
  have l: "error_line IndexError = str ''Error processing row: list index out of range''"
    by (simp add: error_line_def str_def)
  show ?thesis using e by (simp add: row_step_def l)
qed

theorem short_row_skipped_witness:
  "length (find_all (str ''td'') short_row) < 5 \<and>
   process_rows [short_row, sample_row] ([], []) =
     ([\<lparr>student_id = str ''12345'', student_name = str ''Jane Doe'',
        course = str ''CS101'', year = str ''2024''\<rparr>],
      [str ''Error processing row: list index out of range''])"
proof -
  have a: "length (find_all (str ''td'') short_row) < 5" by (simp add: short_row_cells)
  have b: "5 \<le> length (find_all (str ''td'') sample_row)" by (simp add: sample_row_cells)
  have "row_step sample_row ([], [str ''Error processing row: list index out of range'']) =
     ([\<lparr>student_id = str ''12345'', student_name = str ''Jane Doe'',
        course = str ''CS101'', year = str ''2024''\<rparr>],
      [str ''Error processing row: list index out of range''])"
    using extract_fields_full [OF b]
    by (simp add: row_step_def row_record_def sample_row_cells font_text_cell strip_samples)
       (simp add: str_def)
  then show ?thesis
    using a short_row_skipped [OF a, of "[]" "[]" "[sample_row]"] by simp
qed

text \<open>
  A selected row with four cells of its own, the first of which holds a table with one
  cell: the search finds five \<open>td\<close> elements, so the row is not skipped. It gives a
  record, whose ID is the text of the nested cell, and no line is printed.
\<close>

theorem nested_row_counterexample:
  "is_student_row ascii_digit nested_row \<and>
   length (child_cells nested_row) = 4 \<and>
   row_step nested_row ([], []) =
     ([\<lparr>student_id = str ''photo'', student_name = str ''12345'',
        course = str ''Jane Doe'', year = str ''CS101''\<rparr>], [])"
proof -
  have r: "is_student_row ascii_digit nested_row"
    by (simp add: is_student_row_def nested_row_def tr_row_def msg_pattern_search_def
          ascii_digit_def str_def)
  have "extract_fields nested_row = Inr (row_record nested_row)"
    by (rule extract_fields_full) (simp add: nested_row_cells)
  moreover have "row_record nested_row =
      \<lparr>student_id = str ''photo'', student_name = str ''12345'',
       course = str ''Jane Doe'', year = str ''CS101''\<rparr>"
    by (simp add: row_record_def nested_row_cells font_text_cell strip_samples
          strip_more_samples)
  moreover have "str ''photo'' \<noteq> []" by (simp add: str_def)
  ultimately have "row_step nested_row ([], []) =
     ([\<lparr>student_id = str ''photo'', student_name = str ''12345'',
        course = str ''Jane Doe'', year = str ''CS101''\<rparr>], [])"
    by (simp add: row_step_def)
  with r show ?thesis by (simp add: nested_row_children)
qed

text \<open>
  C5. For a row with at least five \<open>td\<close> elements below it, those of nested tables
  counted, the extraction succeeds, and for each of the indices 1, 2, 3 and 4 into these
  elements, taken in document order, the field is the empty text when the element has no
  \<open>font\<close> element below it, and otherwise the text of the first such element, trimmed.
  (The element at an index is the row's own cell at this index only when no earlier cell
  holds a table: see the row below.)
\<close>

theorem field_values:
  assumes "5 \<le> length (find_all (str ''td'') row)" and "i \<in> {1, 2, 3, 4}"
  shows "\<exists>s. extract_fields row = Inr s \<and>
           (case filter (tag_named (str ''font'')) (descendants (find_all (str ''td'') row ! i)) of
              [] \<Rightarrow> field_at i s = []
            | f # fs \<Rightarrow> trimmed (get_text f) (field_at i s))"
proof -
  have f: "field_at i (row_record row) = font_text (find_all (str ''td'') row ! i)"
    using assms(2) by (auto simp: field_at_def row_record_def Let_def)
  have t: "case filter (tag_named (str ''font'')) (descendants c) of
          [] \<Rightarrow> font_text c = []
        | f # fs \<Rightarrow> trimmed (get_text f) (font_text c)" for c
    by (simp add: font_text_def find_first_def find_all_def trimmed_strip split: list.splits)
  show ?thesis
  proof (intro exI conjI)
    show "extract_fields row = Inr (row_record row)"
      by (rule extract_fields_full [OF assms(1)])
    show "case filter (tag_named (str ''font'')) (descendants (find_all (str ''td'') row ! i)) of
            [] \<Rightarrow> field_at i (row_record row) = []
          | f # fs \<Rightarrow> trimmed (get_text f) (field_at i (row_record row))"
      unfolding f by (rule t)
  qed
qed

theorem field_values_witness:
  "5 \<le> length (find_all (str ''td'') sample_row) \<and> (2::nat) \<in> {1, 2, 3, 4} \<and>
   (\<exists>s. extract_fields sample_row = Inr s \<and>
        trimmed (str ''Jane Doe'') (field_at 2 s))"
proof -
  have a: "5 \<le> length (find_all (str ''td'') sample_row)" by (simp add: sample_row_cells)
  have i: "(2::nat) \<in> {1, 2, 3, 4}" by simp
  have d: "filter (tag_named (str ''font'')) (descendants (cell ''Jane Doe'')) =
             [Tag (str ''font'') [] [NavigableString (str ''Jane Doe'')]]"
    by (simp add: cell_def str_def)
  have g: "get_text (Tag (str ''font'') [] [NavigableString (str ''Jane Doe'')]) = str ''Jane Doe''"
    by (simp add: get_text_def)
  show ?thesis
    using a field_values [OF a i] by (simp add: sample_row_cells d g)
qed

text \<open>
  A selected row with five cells of its own, the first of which holds a table with one
  cell. The second cell of the row holds \<open>12345\<close>, but the first field extracted is
  \<open>photo\<close>, the text of the nested cell, and the other fields are shifted by one.
\<close>

theorem nested_cell_counterexample:
  "is_student_row ascii_digit nested_full_row \<and>
   length (child_cells nested_full_row) = 5 \<and>
   font_text (child_cells nested_full_row ! 1) = str ''12345'' \<and>
   extract_fields nested_full_row =
     Inr \<lparr>student_id = str ''photo'', student_name = str ''12345'',
          course = str ''Jane Doe'', year = str ''CS101''\<rparr>"
proof -
  have r: "is_student_row ascii_digit nested_full_row"
    by (simp add: is_student_row_def nested_full_row_def tr_row_def msg_pattern_search_def
          ascii_digit_def str_def)
  have "extract_fields nested_full_row = Inr (row_record nested_full_row)"
    by (rule extract_fields_full) (simp add: nested_full_row_cells)
  moreover have "row_record nested_full_row =
      \<lparr>student_id = str ''photo'', student_name = str ''12345'',
       course = str ''Jane Doe'', year = str ''CS101''\<rparr>"
    by (simp add: row_record_def nested_full_row_cells font_text_cell strip_samples
          strip_more_samples)
  ultimately have e: "extract_fields nested_full_row =
     Inr \<lparr>student_id = str ''photo'', student_name = str ''12345'',
          course = str ''Jane Doe'', year = str ''CS101''\<rparr>"
    by simp
  have c: "font_text (child_cells nested_full_row ! 1) = str ''12345''"
    by (simp add: nested_full_row_children font_text_cell strip_more_samples)
  have l: "length (child_cells nested_full_row) = 5" by (simp add: nested_full_row_children)
  show ?thesis using r l c e by blast
qed



text \<open>
  C7. Reading the input: a missing file raises \<open>FileNotFoundError\<close> and a file that
  may not be opened raises \<open>PermissionError\<close>, with no second attempt; otherwise the
  text is what \<open>windows-1252\<close> decodes the bytes to, and, exactly when that decoding
  fails, what \<open>latin-1\<close> decodes them to, which is every byte as its own code point:
  for a file that can be opened the reading always gives a text.
\<close>

theorem decoding_falls_back:
  "read_html fs html_file_path =
     (case fs html_file_path of
        NoFile \<Rightarrow> Inl FileNotFoundError
      | NoAccess \<Rightarrow> Inl PermissionError
      | Content bs \<Rightarrow>
          (case decode_cp1252 bs of
             Inr t \<Rightarrow> Inr (universal_newlines t)
           | Inl e \<Rightarrow> Inr (universal_newlines (map unat bs))))"
proof (cases "fs html_file_path")
  case NoFile
  then show ?thesis by (simp add: read_html_def read_text_def open_read_def)
next
  case NoAccess
  then show ?thesis by (simp add: read_html_def read_text_def open_read_def)
next
  case (Content bs)
  show ?thesis
  proof (cases "decode_cp1252 bs")
    case (Inl e)
    then have "e = UnicodeDecodeError" by (rule decode_cp1252_error)
    with Inl Content show ?thesis
      by (simp add: read_html_def read_text_def open_read_def decode_latin1_def)
  next
    case (Inr t)
    with Content show ?thesis by (simp add: read_html_def read_text_def open_read_def)
  qed
qed

theorem decoding_falls_back_witness:
  "decode_cp1252 [0x81, 0x41] = Inl UnicodeDecodeError \<and>
   read_html (\<lambda>q. Content [0x81, 0x41]) (str ''page.html'') = Inr [129, 65] \<and>
   read_html (\<lambda>q. Content [0x80, 0x41]) (str ''page.html'') = Inr [8364, 65] \<and>
   read_html (\<lambda>q. NoFile) (str ''page.html'') = Inl FileNotFoundError"
  using decoding_falls_back [of "\<lambda>q. Content [0x81, 0x41]" "str ''page.html''"]
    decoding_falls_back [of "\<lambda>q. Content [0x80, 0x41]" "str ''page.html''"]
    decoding_falls_back [of "\<lambda>q. NoFile" "str ''page.html''"]
  by (simp add: cp1252_char_def cp1252_table_def)

text \<open>
  C8. For a table that is not empty, whose values hold no surrogate code point and are
  no longer than the field size limit of the reader, and an output path that may be
  written: the table is written without an exception, and the file left at the output path,
  decoded and read back by the reader of the \<open>csv\<close> module, is the row of the four
  column names followed by one row for each record, in order, holding the four values of
  the record unchanged, whatever other characters they contain. (With a surrogate in a
  value the writing stops with an exception: see the table below.)
\<close>

theorem csv_file_round_trip:
  assumes "students \<noteq> []" and "fs output_csv_path \<noteq> NoAccess"
      and "list_all encodable students" and "list_all short_fields students"
  shows "raised (save fs output_csv_path (students, out)) = None \<and>
         read_table (files (save fs output_csv_path (students, out))) output_csv_path =
           Some (fieldnames # map student_values students)"
proof -
  have "list_all scalar_value (csv_text students)" using assms(3) by (rule scalar_csv_text)
  then obtain bs where e: "utf8_encode (csv_text students) = Some bs"
    using utf8_encode_scalar by blast
  have w: "write_lines [] (csv_lines (fst (students, out))) = (bs, None)"
    using write_lines_all [of "csv_lines students" bs "[]"] e by (simp add: csv_text_def)
  have n: "fst (students, out) \<noteq> []" using assms(1) by simp
  have f: "files (save fs output_csv_path (students, out)) = fs(output_csv_path := Content bs)"
    using n assms(2) w by (rule save_files)
  have r: "raised (save fs output_csv_path (students, out)) = None"
    using n assms(2) w by (rule save_raised)
  have "read_table (fs(output_csv_path := Content bs)) output_csv_path =
      Some (fieldnames # map student_values students)"
    by (rule table_read_back [OF _ e assms(4)]) simp
  then show ?thesis using f r by simp
qed

theorem csv_file_round_trip_witness:
  "[quoted_student] \<noteq> [] \<and>
   page_files (str ''students_data.csv'') \<noteq> NoAccess \<and>
   list_all encodable [quoted_student] \<and>
   list_all short_fields [quoted_student] \<and>
   csv_row (student_values quoted_student) = str ''1,\"Doe, \"\"JD\"\" Jane\",CS,2'' @ [13, 10] \<and>
   raised (save page_files (str ''students_data.csv'') ([quoted_student], [])) = None \<and>
   read_table (files (save page_files (str ''students_data.csv'') ([quoted_student], [])))
     (str ''students_data.csv'') =
     Some [fieldnames, [str ''1'', str ''Doe, \"JD\" Jane'', str ''CS'', str ''2'']]"
proof -
  have n: "[quoted_student] \<noteq> []" by simp
  have a: "page_files (str ''students_data.csv'') \<noteq> NoAccess" by (simp add: page_files_def)
  have b: "list_all encodable [quoted_student]"
    by (simp add: encodable_def student_values_def quoted_student_def str_def scalar_small)
  have c: "list_all short_fields [quoted_student]"
    by (simp add: short_fields_def student_values_def quoted_student_def str_def
          field_limit_def)
  have t: "csv_row (student_values quoted_student) =
      str ''1,\"Doe, \"\"JD\"\" Jane\",CS,2'' @ [13, 10]"
    by (simp add: csv_row_def csv_field_def needs_quotes_def student_values_def
          quoted_student_def str_def)
  have v: "map student_values [quoted_student] =
      [[str ''1'', str ''Doe, \"JD\" Jane'', str ''CS'', str ''2'']]"
    by (simp add: student_values_def quoted_student_def)
  show ?thesis
    using n a b c t
      csv_file_round_trip [where students = "[quoted_student]" and fs = page_files
        and output_csv_path = "str ''students_data.csv''" and out = "[]"]
    by (simp only: v) blast
qed

text \<open>
  A table of one record whose ID is the lone surrogate 0xD800 (the text of
  \<open>&#xD800;\<close> in a page): writing it raises \<open>UnicodeEncodeError\<close> after the row of
  column names, and the file read back has no data row.
\<close>

theorem surrogate_table_counterexample:
  "list_all short_fields [surrogate_student] \<and>
   raised (save page_files (str ''students_data.csv'') ([surrogate_student], [])) =
     Some UnicodeEncodeError \<and>
   read_table (files (save page_files (str ''students_data.csv'') ([surrogate_student], [])))
     (str ''students_data.csv'') = Some [fieldnames]"
proof -
  obtain hb where h: "utf8_encode (csv_row fieldnames) = Some hb"
    using utf8_encode_scalar [OF scalar_header] by blast
  have s: "utf8_encode (csv_row (student_values surrogate_student)) = None"
    by (rule utf8_encode_surrogate)
       (simp add: csv_row_def csv_field_def needs_quotes_def student_values_def
          surrogate_student_def)
  have w: "write_lines [] (csv_lines (fst ([surrogate_student], []))) =
      (hb, Some UnicodeEncodeError)"
    using h s by (simp add: csv_lines_def)
  have n: "fst ([surrogate_student], []) \<noteq> []" by simp
  have a: "page_files (str ''students_data.csv'') \<noteq> NoAccess" by (simp add: page_files_def)
  have f: "files (save page_files (str ''students_data.csv'') ([surrogate_student], [])) =
      page_files (str ''students_data.csv'' := Content hb)"
    using n a w by (rule save_files)
  have r: "raised (save page_files (str ''students_data.csv'') ([surrogate_student], [])) =
      Some UnicodeEncodeError"
    using n a w by (rule save_raised)
  have t: "utf8_encode (csv_text []) = Some hb"
    using h by (simp add: csv_text_def csv_lines_def)
  have "read_table (page_files (str ''students_data.csv'' := Content hb))
      (str ''students_data.csv'') = Some (fieldnames # map student_values [])"
    by (rule table_read_back [OF _ t]) simp_all
  moreover have "list_all short_fields [surrogate_student]"
    by (simp add: short_fields_def student_values_def surrogate_student_def field_limit_def)
  ultimately show ?thesis using f r by simp
qed

text \<open>
  C9. When the first run has left the input file as it found it, so that the second run
  reads the same input, a second run on the files left by the first one, with the same
  paths, has the outcome of the first run: the same files, byte for byte, the same lines
  printed and the same exception, if any.
\<close>

theorem rerun_same_output:
  assumes "files (scrape_student_data dec parse fs html_file_path output_csv_path)
             html_file_path = fs html_file_path"
  shows "scrape_student_data dec parse
           (files (scrape_student_data dec parse fs html_file_path output_csv_path))
           html_file_path output_csv_path =
         scrape_student_data dec parse fs html_file_path output_csv_path"
proof (cases "read_html fs html_file_path")
  case (Inl e)
  then show ?thesis by (simp add: scrape_student_data_def)
next
  case (Inr html_content)
  define st where "st = process_rows (student_rows dec (parse html_content)) ([], [])"
  have run: "scrape_student_data dec parse fs' html_file_path output_csv_path =
             save fs' output_csv_path st"
    if "fs' html_file_path = fs html_file_path" for fs'
    using read_html_same [of fs' html_file_path fs] that Inr
    by (simp add: scrape_student_data_def st_def)
  have first: "scrape_student_data dec parse fs html_file_path output_csv_path =
      save fs output_csv_path st"
    by (rule run) (rule refl)
  have keep: "files (save fs output_csv_path st) html_file_path = fs html_file_path"
    using assms by (simp only: first)
  consider (empty) "fst st = []"
    | (denied) "fst st \<noteq> []" "fs output_csv_path = NoAccess"
    | (written) "fst st \<noteq> []" "fs output_csv_path \<noteq> NoAccess"
    by blast
  then have same: "save (files (save fs output_csv_path st)) output_csv_path st =
             save fs output_csv_path st"
  proof cases
    case empty
    then show ?thesis by (simp add: save_def)
  next
    case denied
    then show ?thesis by (simp add: save_def open_write_denied)
  next
    case written
    obtain bs eo where w: "write_lines [] (csv_lines (fst st)) = (bs, eo)"
      by (cases "write_lines [] (csv_lines (fst st))")
    have f: "files (save fs output_csv_path st) = fs(output_csv_path := Content bs)"
      using written w by (rule save_files)
    have "save (fs(output_csv_path := Content bs)) output_csv_path st = save fs output_csv_path st"
      using written w by (cases eo) (simp_all add: save_def open_write_ok)
    then show ?thesis by (simp only: f)
  qed
  have "scrape_student_data dec parse (files (save fs output_csv_path st))
          html_file_path output_csv_path =
        save (files (save fs output_csv_path st)) output_csv_path st"
    using keep by (rule run)
  then show ?thesis by (simp only: first same)
qed

theorem rerun_same_output_witness:
  "files (scrape_student_data ascii_digit sample_parser page_files
            (str ''page.html'') (str ''students_data.csv'')) (str ''page.html'') =
     page_files (str ''page.html'') \<and>
   page_files (str ''students_data.csv'') = Content old_table \<and>
   files (scrape_student_data ascii_digit sample_parser page_files
            (str ''page.html'') (str ''students_data.csv'')) (str ''students_data.csv'') =
     Content (map of_nat page_table) \<and>
   scrape_student_data ascii_digit sample_parser
     (files (scrape_student_data ascii_digit sample_parser page_files
               (str ''page.html'') (str ''students_data.csv'')))
     (str ''page.html'') (str ''students_data.csv'') =
   scrape_student_data ascii_digit sample_parser page_files
     (str ''page.html'') (str ''students_data.csv'')"
proof -
  have d: "str ''page.html'' \<noteq> str ''students_data.csv''" by (simp add: str_def)
  have o: "page_files (str ''students_data.csv'') = Content old_table"
    by (simp add: page_files_def str_def)
  have a: "page_files (str ''students_data.csv'') \<noteq> NoAccess" by (simp add: o)
  note f = first_run [OF a]
  have k: "files (scrape_student_data ascii_digit sample_parser page_files
            (str ''page.html'') (str ''students_data.csv'')) (str ''page.html'') =
      page_files (str ''page.html'')"
    using d by (simp add: f)
  have t: "files (scrape_student_data ascii_digit sample_parser page_files
            (str ''page.html'') (str ''students_data.csv'')) (str ''students_data.csv'') =
      Content (map of_nat page_table)"
    by (simp add: f)
  show ?thesis using k o t rerun_same_output [OF k] by blast
qed

text \<open>
  C10. When every row has at least five cells, the extraction succeeds for each of them,
  and the loop prints nothing: the lines printed after the loop are those printed before
  it, so no \<open>Error processing row\<close> line is added.
\<close>

theorem full_row_raises_nothing:
  assumes "\<forall>row \<in> set rows. 5 \<le> length (find_all (str ''td'') row)"
  shows "(\<forall>row \<in> set rows. \<exists>s. extract_fields row = Inr s) \<and>
         snd (process_rows rows (students, out)) = out"
proof
  show "\<forall>row \<in> set rows. \<exists>s. extract_fields row = Inr s"
    using assms by (auto simp: extract_fields_full)
  show "snd (process_rows rows (students, out)) = out"
    using assms
  proof (induction rows arbitrary: students)
    case Nil
    then show ?case by simp
  next
    case (Cons row rows)
    then have "extract_fields row = Inr (row_record row)" by (simp add: extract_fields_full)
    then have "row_step row (students, out) = (students @ [row_record row], out) \<or>
               row_step row (students, out) = (students, out)"
      by (simp add: row_step_def)
    then show ?case using Cons by auto
  qed
qed

theorem full_row_raises_nothing_witness:
  "5 \<le> length (find_all (str ''td'') sample_row) \<and>
   5 \<le> length (find_all (str ''td'') blank_row) \<and>
   (\<exists>s. extract_fields sample_row = Inr s) \<and>
   snd (process_rows [sample_row, blank_row] ([], [])) = []"
proof -
  have a: "\<forall>row \<in> set [sample_row, blank_row]. 5 \<le> length (find_all (str ''td'') row)"
    by (simp add: sample_row_cells blank_row_cells)
  show ?thesis
    using a full_row_raises_nothing [OF a, of "[]" "[]"] by simp
qed

end
